theory Spec2Isabelle
  imports Complex_Main "HOL-Library.Word" "HOL-Library.Log_Nat"
begin

unbundle bit_operations_syntax

section \<open>Values, errors and ordered dictionaries\<close>

text \<open>
  The decoder of \<^verbatim>\<open>portableappliancetest.py\<close> reads a byte stream of Seaward SSS records.
  A Python \<^verbatim>\<open>bytes\<close> object is a list of 8-bit words; a Python \<^verbatim>\<open>int\<close> is an \<open>int\<close>.
  A Python \<^verbatim>\<open>float\<close> is a double; it is represented by the rational number that the double
  is, and the arithmetic on floats rounds as the hardware does (section ``Floats''). A Python
  \<^verbatim>\<open>str\<close> is represented by its UTF-8 encoding.
\<close>

type_synonym byte = "8 word"

datatype error = StructError | KeyError | UnicodeDecodeError | ValueError | IndexError | TypeError

datatype pyval =
    PInt int
  | PFloat rat
  | PStr string
  | PBool bool
  | PDateTime int int int int int

text \<open>\<^verbatim>\<open>collections.OrderedDict\<close>: assignment to a present key keeps its position, assignment
  to a new key appends.\<close>

type_synonym data = "(string \<times> pyval) list"

fun od_set :: "'k \<Rightarrow> 'v \<Rightarrow> ('k \<times> 'v) list \<Rightarrow> ('k \<times> 'v) list" where
  "od_set k v [] = [(k, v)]"
| "od_set k v ((k', v') # kvs) =
     (if k' = k then (k, v) # kvs else (k', v') # od_set k v kvs)"

text \<open>Python's \<^verbatim>\<open>x == n\<close> for an integer literal \<open>n\<close>, and \<^verbatim>\<open>bool(x)\<close>.\<close>

fun py_eq_int :: "pyval \<Rightarrow> int \<Rightarrow> bool" where
  "py_eq_int (PInt v) n = (v = n)"
| "py_eq_int (PFloat r) n = (r = of_int n)"
| "py_eq_int (PBool b) n = ((if b then 1 else 0) = n)"
| "py_eq_int (PStr s) n = False"
| "py_eq_int (PDateTime y mo d h mi) n = False"

fun py_bool :: "pyval \<Rightarrow> bool" where
  "py_bool (PInt v) = (v \<noteq> 0)"
| "py_bool (PFloat r) = (r \<noteq> 0)"
| "py_bool (PBool b) = b"
| "py_bool (PStr s) = (s \<noteq> [])"
| "py_bool (PDateTime y mo d h mi) = True"

text \<open>Python's \<^verbatim>\<open>float(x)\<close>: the numeric value of a number.\<close>

definition py_float :: "pyval \<Rightarrow> error + rat" where
  "py_float x =
     (case x of
        PInt v \<Rightarrow> Inr (of_int v)
      | PFloat r \<Rightarrow> Inr r
      | PBool b \<Rightarrow> Inr (if b then 1 else 0)
      | PStr s \<Rightarrow> Inl ValueError
      | PDateTime y mo d h mi \<Rightarrow> Inl TypeError)"

section \<open>Class Sdb: field schemas and unpacking\<close>

datatype ftype = Tint | Tstr

type_synonym field = "string \<times> ftype \<times> nat"

text \<open>\<^verbatim>\<open>build_format_string\<close>: an int field of size 1, 2 or 4 is \<^verbatim>\<open>B\<close>, \<^verbatim>\<open>H\<close> or \<^verbatim>\<open>L\<close>,
  any other int field falls to \<^verbatim>\<open>field_pack_format[int] = 'I'\<close> (4 bytes), a str field of
  size \<open>n\<close> is \<^verbatim>\<open>ns\<close>. \<^verbatim>\<open>struct.calcsize\<close> of a format with an explicit byte order adds the
  widths without padding.\<close>

fun field_width :: "field \<Rightarrow> nat" where
  "field_width (name, Tint, sz) = (if sz = 1 then 1 else if sz = 2 then 2 else 4)"
| "field_width (name, Tstr, sz) = sz"

definition required_length :: "field list \<Rightarrow> nat" where
  "required_length fs = sum_list (map field_width fs)"

text \<open>Big-endian unsigned integer of a byte run.\<close>

definition be_int :: "byte list \<Rightarrow> int" where
  "be_int bs = foldl (\<lambda>acc b. acc * 256 + uint b) 0 bs"

text \<open>\<^verbatim>\<open>bytes.rstrip()\<close> removes trailing ASCII whitespace.\<close>

definition is_space :: "byte \<Rightarrow> bool" where
  "is_space b = (b = 0x20 \<or> b = 0x09 \<or> b = 0x0a \<or> b = 0x0b \<or> b = 0x0c \<or> b = 0x0d)"

definition rstrip :: "byte list \<Rightarrow> byte list" where
  "rstrip bs = rev (dropWhile is_space (rev bs))"

text \<open>\<^verbatim>\<open>bytes.decode('utf-8')\<close> raises on an ill-formed sequence (overlong forms, surrogates
  and code points above U+10FFFF included).\<close>

definition cont :: "nat \<Rightarrow> bool" where
  "cont b = (0x80 \<le> b \<and> b \<le> 0xBF)"

definition second3 :: "nat \<Rightarrow> nat \<Rightarrow> bool" where
  "second3 a b = (if a = 0xE0 then 0xA0 \<le> b \<and> b \<le> 0xBF
                  else if a = 0xED then 0x80 \<le> b \<and> b \<le> 0x9F
                  else cont b)"

definition second4 :: "nat \<Rightarrow> nat \<Rightarrow> bool" where
  "second4 a b = (if a = 0xF0 then 0x90 \<le> b \<and> b \<le> 0xBF
                  else if a = 0xF4 then 0x80 \<le> b \<and> b \<le> 0x8F
                  else cont b)"

fun utf8_ok :: "nat list \<Rightarrow> bool" where
  "utf8_ok [] = True"
| "utf8_ok (a # bs) =
     (if a < 0x80 then utf8_ok bs
      else if 0xC2 \<le> a \<and> a \<le> 0xDF then
        (case bs of b # r \<Rightarrow> cont b \<and> utf8_ok r | _ \<Rightarrow> False)
      else if 0xE0 \<le> a \<and> a \<le> 0xEF then
        (case bs of b # c # r \<Rightarrow> second3 a b \<and> cont c \<and> utf8_ok r | _ \<Rightarrow> False)
      else if 0xF0 \<le> a \<and> a \<le> 0xF4 then
        (case bs of b # c # d # r \<Rightarrow> second4 a b \<and> cont c \<and> cont d \<and> utf8_ok r | _ \<Rightarrow> False)
      else False)"

text \<open>A str field: \<^verbatim>\<open>raw.replace(b'\x00', b'').rstrip().decode('utf-8')\<close>.\<close>

definition decode_str :: "byte list \<Rightarrow> error + string" where
  "decode_str raw =
     (let bs = rstrip (filter (\<lambda>b. b \<noteq> 0) raw)
      in if utf8_ok (map unat bs) then Inr (map (\<lambda>b. char_of (unat b)) bs)
         else Inl UnicodeDecodeError)"

text \<open>\<^verbatim>\<open>Sdb.unpack\<close>: \<^verbatim>\<open>struct.unpack\<close> raises unless the buffer has exactly the required
  length; then the fields are stored in declaration order.\<close>

fun unpack_fields :: "field list \<Rightarrow> byte list \<Rightarrow> data \<Rightarrow> error + data" where
  "unpack_fields [] bs d = Inr d"
| "unpack_fields ((name, Tint, sz) # fs) bs d =
     (let w = field_width (name, Tint, sz)
      in unpack_fields fs (drop w bs) (od_set name (PInt (be_int (take w bs))) d))"
| "unpack_fields ((name, Tstr, sz) # fs) bs d =
     (case decode_str (take sz bs) of
        Inl e \<Rightarrow> Inl e
      | Inr s \<Rightarrow> unpack_fields fs (drop sz bs) (od_set name (PStr s) d))"

definition sdb_unpack :: "field list \<Rightarrow> byte list \<Rightarrow> error + data" where
  "sdb_unpack fs structure =
     (if length structure \<noteq> required_length fs then Inl StructError
      else unpack_fields fs structure [])"

section \<open>Class SSS: rescaling and pass flags\<close>

subsection \<open>Floats\<close>

text \<open>Rounding to the nearest integer, ties to the even one.\<close>

definition round_half_even :: "rat \<Rightarrow> int" where
  "round_half_even y =
     (let f = \<lfloor>y\<rfloor>; d = y - of_int f
      in if d < 1 / 2 then f else if 1 / 2 < d then f + 1 else if even f then f else f + 1)"

text \<open>The binary exponent of a positive rational \<open>q\<close>: the \<open>k\<close> with \<open>2^k \<le> q < 2^(k+1)\<close>, found
  from the bit lengths of numerator and denominator.\<close>

definition binade :: "rat \<Rightarrow> int" where
  "binade q =
     (let (a, b) = quotient_of q; k = bitlen a - bitlen b
      in if 2 powi k \<le> q then k else k - 1)"

text \<open>The double nearest to a rational (IEEE 754 binary64, round to nearest, ties to even): 53
  significant bits, so the spacing of the doubles around \<open>q\<close> is \<open>2^(binade q - 52)\<close>. Overflow
  and the subnormal range are not modelled; the decoder's magnitudes lie between 0.001 and
  16383.\<close>

definition nearest_double :: "rat \<Rightarrow> rat" where
  "nearest_double q =
     (if q = 0 then 0
      else let u = 2 powi (binade \<bar>q\<bar> - 52)
           in of_int (round_half_even (q / u)) * u)"

text \<open>\<^verbatim>\<open>10 ** -e\<close> for a positive integer \<open>e\<close> is the float power \<^verbatim>\<open>pow(10.0, -e)\<close>, taken to be
  correctly rounded (it is for the exponents 1 to 3 that a 16-bit field can give: Python
  shows 0.1, 0.01 and 0.001). A float times an integer converts the integer (exactly, below
  \<open>2^53\<close>) and rounds the exact product.\<close>

definition pow10_neg :: "nat \<Rightarrow> rat" where
  "pow10_neg e = nearest_double (1 / 10 ^ e)"

definition float_mul_int :: "rat \<Rightarrow> int \<Rightarrow> rat" where
  "float_mul_int x m = nearest_double (x * of_int m)"

text \<open>\<^verbatim>\<open>(10**-(v >> 14)) * (v & 0x3fff)\<close>. When the exponent \<^verbatim>\<open>-(v >> 14)\<close> is not negative the
  power is an integer and so is the product (for a 16-bit value this is the case of the top
  bits 00, where \<^verbatim>\<open>10**-0\<close> is 1); otherwise the power is a float and so is the product.\<close>

definition rescale_val :: "int \<Rightarrow> pyval" where
  "rescale_val v =
     (let e = drop_bit 14 v; m = v AND 0x3fff
      in if e \<le> 0 then PInt (10 ^ nat (- e) * m)
         else PFloat (float_mul_int (pow10_neg (nat e)) m))"

definition rescale :: "string \<Rightarrow> data \<Rightarrow> error + data" where
  "rescale key d =
     (case map_of d key of
        None \<Rightarrow> Inl KeyError
      | Some (PInt v) \<Rightarrow> Inr (od_set key (rescale_val v) d)
      | Some (PBool b) \<Rightarrow> Inr (od_set key (rescale_val (if b then 1 else 0)) d)
      | Some _ \<Rightarrow> Inl TypeError)"

definition passed :: "string \<Rightarrow> data \<Rightarrow> error + data" where
  "passed key d =
     (case map_of d key of
        None \<Rightarrow> Inl KeyError
      | Some x \<Rightarrow> Inr (od_set key (PBool (py_eq_int x 1)) d))"

text \<open>Sequencing of steps that may raise.\<close>

definition then_do :: "error + 'a \<Rightarrow> ('a \<Rightarrow> error + 'b) \<Rightarrow> error + 'b" where
  "then_do r f = (case r of Inl e \<Rightarrow> Inl e | Inr x \<Rightarrow> f x)"

section \<open>The record and test classes\<close>

datatype sss_class =
    SSSRecordHeader
  | SSSVisualTest
  | SSSNoDataTest
  | SSSEarthResistanceTest
  | SSSEarthResistanceTestv2
  | SSSEarthInsulationTest
  | SSSCurrentTest
  | SSSCurrentTestv2
  | SSSEarthInsulationTestv2
  | SSSPowerLeakTest
  | SSSPowerLeakTestv2
  | SSSContinuityTest
  | SSSContinuityTestv2
  | SSSUserDataMappingTest
  | SSSRetestTest
  | SSSSoftwareVersionTest
  | SSSUserDataTest

fun fields :: "sss_class \<Rightarrow> field list" where
  "fields SSSRecordHeader =
     [(''payload_length'', Tint, 2), (''nulls'', Tint, 2), (''checksum_header'', Tint, 2)]"
| "fields SSSVisualTest =
     [(''id'', Tstr, 16), (''hour'', Tint, 1), (''minute'', Tint, 1), (''day'', Tint, 1),
      (''month'', Tint, 1), (''year'', Tint, 2), (''site'', Tstr, 16), (''location'', Tstr, 16),
      (''tester'', Tstr, 11), (''testcode1'', Tstr, 10), (''testcode2'', Tstr, 11)]"
| "fields SSSNoDataTest = []"
| "fields SSSEarthResistanceTest = [(''resistance'', Tint, 2)]"
| "fields SSSEarthResistanceTestv2 =
     [(''current'', Tint, 1), (''pass'', Tint, 1), (''resistance'', Tint, 2)]"
| "fields SSSEarthInsulationTest = [(''resistance'', Tint, 2)]"
| "fields SSSCurrentTest = [(''current'', Tint, 2)]"
| "fields SSSCurrentTestv2 = [(''pass'', Tint, 1), (''current'', Tint, 2)]"
| "fields SSSEarthInsulationTestv2 = [(''pass'', Tint, 1), (''resistance'', Tint, 2)]"
| "fields SSSPowerLeakTest = [(''leakage'', Tint, 2), (''load'', Tint, 2)]"
| "fields SSSPowerLeakTestv2 =
     [(''pass'', Tint, 1), (''leakage'', Tint, 2), (''load'', Tint, 2)]"
| "fields SSSContinuityTest = [(''resistance'', Tint, 2)]"
| "fields SSSContinuityTestv2 = [(''pass'', Tint, 1), (''resistance'', Tint, 2)]"
| "fields SSSUserDataMappingTest =
     [(''mapping1'', Tint, 1), (''mapping2'', Tint, 1), (''mapping3'', Tint, 1),
      (''mapping4'', Tint, 1)]"
| "fields SSSRetestTest = [(''nulls'', Tint, 1), (''unknown'', Tint, 1), (''frequency'', Tint, 1)]"
| "fields SSSSoftwareVersionTest =
     [(''serialnumber'', Tstr, 11), (''firmware1'', Tint, 1), (''firmware2'', Tint, 1),
      (''firmware3'', Tint, 1)]"
| "fields SSSUserDataTest =
     [(''line1'', Tstr, 21), (''line2'', Tstr, 21), (''line3'', Tstr, 21), (''line4'', Tstr, 21)]"

text \<open>\<^verbatim>\<open>len(obj)\<close> of an instance.\<close>

definition len :: "sss_class \<Rightarrow> nat" where
  "len cls = required_length (fields cls)"

text \<open>The continuity classes end their fixup with
  \<^verbatim>\<open>if self.data['resistance'] == 0.0: self.data['resistance'] = '(no result)'\<close>.\<close>

definition zero_no_result :: "string \<Rightarrow> data \<Rightarrow> error + data" where
  "zero_no_result key d =
     (case map_of d key of
        None \<Rightarrow> Inl KeyError
      | Some x \<Rightarrow> Inr (if py_eq_int x 0 then od_set key (PStr ''(no result)'') d else d))"

text \<open>\<^verbatim>\<open>SSSPowerLeakTestv2\<close> begins with \<^verbatim>\<open>self.data['pass'] = bool(self.data['pass'])\<close>.\<close>

definition truthy :: "string \<Rightarrow> data \<Rightarrow> error + data" where
  "truthy key d =
     (case map_of d key of
        None \<Rightarrow> Inl KeyError
      | Some x \<Rightarrow> Inr (od_set key (PBool (py_bool x)) d))"

definition mappings :: "(int \<times> string) list" where
  "mappings = [(0, ''Notes''), (1, ''Asset Description''), (2, ''Asset Group''), (3, ''Make''),
               (4, ''Model''), (5, ''Serial No.'')]"

text \<open>\<^verbatim>\<open>for key, value in list(self.data.items()):
  self.data['meaning' + key[-1]] = self.mappings[value]\<close>\<close>

fun fixup_mapping :: "(string \<times> pyval) list \<Rightarrow> data \<Rightarrow> error + data" where
  "fixup_mapping [] d = Inr d"
| "fixup_mapping ((key, val) # items) d =
     (case find (\<lambda>(k, m). py_eq_int val k) mappings of
        None \<Rightarrow> Inl KeyError
      | Some (k, m) \<Rightarrow>
          if key = [] then Inl IndexError
          else fixup_mapping items (od_set (''meaning'' @ [last key]) (PStr m) d))"

fun fixup :: "sss_class \<Rightarrow> data \<Rightarrow> error + data" where
  "fixup SSSEarthResistanceTest d = rescale ''resistance'' d"
| "fixup SSSEarthResistanceTestv2 d = then_do (rescale ''resistance'' d) (passed ''pass'')"
| "fixup SSSEarthInsulationTest d = rescale ''resistance'' d"
| "fixup SSSCurrentTest d = rescale ''current'' d"
| "fixup SSSCurrentTestv2 d = then_do (rescale ''current'' d) (passed ''pass'')"
| "fixup SSSEarthInsulationTestv2 d = then_do (rescale ''resistance'' d) (passed ''pass'')"
| "fixup SSSPowerLeakTest d = then_do (rescale ''leakage'' d) (rescale ''load'')"
| "fixup SSSPowerLeakTestv2 d =
     then_do (then_do (truthy ''pass'' d) (rescale ''leakage'')) (rescale ''load'')"
| "fixup SSSContinuityTest d =
     then_do (rescale ''resistance'' d) (zero_no_result ''resistance'')"
| "fixup SSSContinuityTestv2 d =
     then_do (then_do (rescale ''resistance'' d) (passed ''pass''))
       (zero_no_result ''resistance'')"
| "fixup SSSUserDataMappingTest d = fixup_mapping d d"
| "fixup cls d = Inr d"

text \<open>\<^verbatim>\<open>SSS.unpack\<close>: unpack the fields into the fresh instance, then fix up.\<close>

definition unpack :: "sss_class \<Rightarrow> byte list \<Rightarrow> error + data" where
  "unpack cls structure = then_do (sdb_unpack (fields cls) structure) (fixup cls)"

text \<open>The value a decoded sub-record holds under a key, if it was decoded and has the key.\<close>

definition field_of :: "error + data \<Rightarrow> string \<Rightarrow> pyval option" where
  "field_of r key = (case r of Inl err \<Rightarrow> None | Inr d \<Rightarrow> map_of d key)"

section \<open>The type registries\<close>

type_synonym registry = "(nat \<times> string \<times> sss_class) list"

definition TESTS_VERSION_1 :: registry where
  "TESTS_VERSION_1 =
     [(0x01, ''Visual Pass (01)'', SSSVisualTest),
      (0x02, ''Visual Fail (02)'', SSSVisualTest),
      (0x10, ''Unknown (10)'', SSSNoDataTest),
      (0xe0, ''User Data Mapping (E0)'', SSSUserDataMappingTest),
      (0xe1, ''Retest (E1)'', SSSRetestTest),
      (0xf0, ''Overall Pass (F0)'', SSSNoDataTest),
      (0xf1, ''Overall Fail (F1)'', SSSNoDataTest),
      (0xf2, ''Earth Resistance (F2)'', SSSEarthResistanceTest),
      (0xf3, ''Earth Insulation (F3)'', SSSEarthInsulationTest),
      (0xf4, ''Substitute Leakage (F4)'', SSSCurrentTest),
      (0xf5, ''Flash Leakage (F5)'', SSSCurrentTest),
      (0xf6, ''Load/Leakage (F6)'', SSSPowerLeakTest),
      (0xf7, ''Flash Leakage (F5)'', SSSCurrentTest),
      (0xf8, ''Continuity (F8)'', SSSContinuityTest),
      (0xfa, ''Unknown (FA)'', SSSNoDataTest),
      (0xfb, ''User data (FB)'', SSSUserDataTest),
      (0xfe, ''Software Version (FE)'', SSSSoftwareVersionTest),
      (0xff, ''End of Record (FF)'', SSSNoDataTest)]"

definition TESTS_VERSION_2 :: registry where
  "TESTS_VERSION_2 =
     [(0x11, ''Visual Pass v2 (11)'', SSSVisualTest),
      (0x12, ''Visual Fail v2 (12)'', SSSVisualTest),
      (0xf2, ''Earth Resistance v2 (F2)'', SSSEarthResistanceTestv2),
      (0xf3, ''Earth Insulation v2 (F3)'', SSSEarthInsulationTestv2),
      (0xf4, ''Substitute Leakage v2 (F4)'', SSSCurrentTestv2),
      (0xf5, ''Flash Leakage v2 (F5)'', SSSCurrentTestv2),
      (0xf6, ''Load/Leakage v2 (F6)'', SSSPowerLeakTestv2),
      (0xf7, ''Flash Leakage v2 (F7)'', SSSCurrentTestv2),
      (0xf8, ''Continuity v2 (F8)'', SSSContinuityTestv2),
      (0xf9, ''Lead Continuity Pass (F9)'', SSSNoDataTest)]"

text \<open>\<^verbatim>\<open>dict.update\<close>: every item of the second dictionary is assigned into the first.\<close>

definition dict_update :: "('k \<times> 'v) list \<Rightarrow> ('k \<times> 'v) list \<Rightarrow> ('k \<times> 'v) list" where
  "dict_update d1 d2 = foldl (\<lambda>d (k, v). od_set k v d) d1 d2"

section \<open>Frame reader: \<^verbatim>\<open>records_gen\<close>\<close>

text \<open>\<^verbatim>\<open>SSSRecordHeader.checksum\<close>: \<^verbatim>\<open>sum(payload) & 0xffff\<close> compared with the header's
  \<^verbatim>\<open>checksum_header\<close>. (The two entries it also stores in the header's dictionary are never
  read.)\<close>

definition checksum :: "data \<Rightarrow> byte list \<Rightarrow> error + bool" where
  "checksum d pl =
     (case map_of d ''checksum_header'' of
        None \<Rightarrow> Inl KeyError
      | Some x \<Rightarrow> Inr (py_eq_int x (sum_list (map uint pl) AND 0xffff)))"

text \<open>One \<^verbatim>\<open>next(records)\<close> on the generator, from the bytes not yet read: the generator
  is exhausted (\<open>Stop\<close>), raises (\<open>Fail\<close>), or yields a payload and leaves the rest of the
  stream. \<^verbatim>\<open>filehandle.read(n)\<close> returns the next \<open>n\<close> bytes, or as many as are left.\<close>

datatype gen = Stop | Fail error | Yield "byte list" "byte list"

function records_next :: "byte list \<Rightarrow> gen" where
  "records_next s =
     (let header = take (len SSSRecordHeader) s; s1 = drop (len SSSRecordHeader) s
      in if header = [] then Stop
         else case unpack SSSRecordHeader header of
                Inl e \<Rightarrow> Fail e
              | Inr d \<Rightarrow>
                  (case map_of d ''payload_length'' of
                     None \<Rightarrow> Fail KeyError
                   | Some (PInt n) \<Rightarrow>
                       if n = 0 then records_next s1
                       else let pl = take (nat n) s1; s2 = drop (nat n) s1
                            in (case checksum d pl of
                                  Inl e \<Rightarrow> Fail e
                                | Inr ok \<Rightarrow> if \<not> ok then records_next s2 else Yield pl s2)
                   | Some _ \<Rightarrow> Fail TypeError))"
  by pat_completeness auto
termination
  by (relation "measure length") (auto simp: len_def required_length_def)

declare records_next.simps [simp del]

section \<open>Reporting: \<^verbatim>\<open>report_record\<close>\<close>

text \<open>The environment of a run: the function attributes \<^verbatim>\<open>parse_record.test_id\<close>,
  \<^verbatim>\<open>report_record.user_notes\<close> and \<^verbatim>\<open>report_record.user_counts\<close>, which live as long as
  the process; the arguments of every call of \<^verbatim>\<open>report_record\<close> so far (record id, type
  code, test id, decoded fields); and the cells written to the sheets of the output workbook
  (sheet index, row, first column, values).\<close>

type_synonym row = "nat \<times> nat \<times> nat \<times> data"

type_synonym cell_write = "nat \<times> int \<times> nat \<times> pyval list"

record env =
  test_id :: nat
  user_notes :: "pyval list"
  user_counts :: "int list"
  reported :: "row list"
  writes :: "cell_write list"

definition initial_env :: env where
  "initial_env = \<lparr>test_id = 1, user_notes = [PInt 0, PInt 1, PInt 2, PInt 3],
                  user_counts = [0, 0, 0, 0, 0, 0], reported = [], writes = []\<rparr>"

definition as_int :: "pyval \<Rightarrow> error + int" where
  "as_int x = (case x of PInt v \<Rightarrow> Inr v | PBool b \<Rightarrow> Inr (if b then 1 else 0)
               | _ \<Rightarrow> Inl TypeError)"

text \<open>Python list indexing: a negative index counts from the end.\<close>

definition py_index :: "nat \<Rightarrow> int \<Rightarrow> error + nat" where
  "py_index n i =
     (let j = (if i < 0 then int n + i else i)
      in if 0 \<le> j \<and> j < int n then Inr (nat j) else Inl IndexError)"

fun show_nat :: "nat \<Rightarrow> string" where
  "show_nat n =
     (if n < 10 then [char_of (48 + n)] else show_nat (n div 10) @ [char_of (48 + n mod 10)])"

definition show_int :: "int \<Rightarrow> string" where
  "show_int i = (if i < 0 then CHR ''-'' # show_nat (nat (- i)) else show_nat (nat i))"

text \<open>\<^verbatim>\<open>'%d' % x\<close>: an integer in decimal; a float is truncated towards zero first; anything
  that is not a number raises.\<close>

definition format_d :: "pyval \<Rightarrow> error + string" where
  "format_d x =
     (case x of
        PInt v \<Rightarrow> Inr (show_int v)
      | PBool b \<Rightarrow> Inr (show_int (if b then 1 else 0))
      | PFloat r \<Rightarrow> Inr (show_int (if 0 \<le> r then \<lfloor>r\<rfloor> else \<lceil>r\<rceil>))
      | PStr s \<Rightarrow> Inl TypeError
      | PDateTime y mo d h mi \<Rightarrow> Inl TypeError)"

text \<open>\<^verbatim>\<open>'%d.%d.%d' % tuple(values)\<close> needs exactly three numbers.\<close>

definition firmware_version :: "pyval list \<Rightarrow> error + string" where
  "firmware_version vs =
     (case vs of
        [a, b, c] \<Rightarrow>
          then_do (format_d a) (\<lambda>x. then_do (format_d b) (\<lambda>y. then_do (format_d c) (\<lambda>z.
            Inr (x @ ''.'' @ y @ ''.'' @ z))))
      | _ \<Rightarrow> Inl TypeError)"

text \<open>\<^verbatim>\<open>str(report_record.user_notes)\<close>. The tuple holds the first values of a user-data-mapping
  sub-record, which are integers. Of the other values, text is shown in quotes without
  escapes, and the digits of a float are left out.\<close>

fun py_repr :: "pyval \<Rightarrow> string" where
  "py_repr (PInt v) = show_int v"
| "py_repr (PBool b) = (if b then ''True'' else ''False'')"
| "py_repr (PStr s) = CHR 0x27 # s @ [CHR 0x27]"
| "py_repr (PFloat r) = ''?''"
| "py_repr (PDateTime y mo d h mi) =
     ''datetime.datetime('' @ show_int y @ '', '' @ show_int mo @ '', '' @ show_int d @ '', ''
       @ show_int h @ '', '' @ show_int mi @ '')''"

fun join_comma :: "string list \<Rightarrow> string" where
  "join_comma [] = []"
| "join_comma [x] = x"
| "join_comma (x # y # zs) = x @ '', '' @ join_comma (y # zs)"

definition str_tuple :: "pyval list \<Rightarrow> string" where
  "str_tuple vs =
     (case vs of [v] \<Rightarrow> ''('' @ py_repr v @ '',)''
      | _ \<Rightarrow> ''('' @ join_comma (map py_repr vs) @ '')'')"

text \<open>\<^verbatim>\<open>datetime.datetime(year, month, day, hour, minute)\<close> raises on a field out of range.\<close>

definition is_leap :: "int \<Rightarrow> bool" where
  "is_leap y = (y mod 4 = 0 \<and> (y mod 100 \<noteq> 0 \<or> y mod 400 = 0))"

definition days_in_month :: "int \<Rightarrow> int \<Rightarrow> int" where
  "days_in_month y m =
     (if m = 2 then (if is_leap y then 29 else 28)
      else if m = 4 \<or> m = 6 \<or> m = 9 \<or> m = 11 then 30 else 31)"

definition datetime :: "pyval \<Rightarrow> pyval \<Rightarrow> pyval \<Rightarrow> pyval \<Rightarrow> pyval \<Rightarrow> error + pyval" where
  "datetime year month day hour minute =
     then_do (as_int year) (\<lambda>y. then_do (as_int month) (\<lambda>mo. then_do (as_int day) (\<lambda>d.
     then_do (as_int hour) (\<lambda>h. then_do (as_int minute) (\<lambda>mi.
       if 1 \<le> y \<and> y \<le> 9999 \<and> 1 \<le> mo \<and> mo \<le> 12 \<and> 1 \<le> d \<and> d \<le> days_in_month y mo
          \<and> 0 \<le> h \<and> h \<le> 23 \<and> 0 \<le> mi \<and> mi \<le> 59
       then Inr (PDateTime y mo d h mi) else Inl ValueError)))))"

text \<open>The sheets of the workbook made by \<^verbatim>\<open>initialise_output\<close>: 0 is "Records", 1 is
  "Tests", 2 to 7 are the six optional-data sheets.\<close>

definition n_worksheets :: nat where
  "n_worksheets = 8"

definition write_cells :: "nat \<Rightarrow> int \<Rightarrow> nat \<Rightarrow> pyval list \<Rightarrow> env \<Rightarrow> env" where
  "write_cells sheet r c vs e = e\<lparr>writes := writes e @ [(sheet, r, c, vs)]\<rparr>"

text \<open>The branch for the sub-records that fill the "Records" sheet, up to the final write of
  the record id.\<close>

definition report_record_sheet :: "nat \<Rightarrow> pyval list \<Rightarrow> nat \<Rightarrow> env \<Rightarrow> error + env" where
  "report_record_sheet record_id data_values tt e =
     (if tt = 0xfe then
        (case firmware_version (drop 1 data_values) of
           Inl err \<Rightarrow> Inl err
         | Inr fw \<Rightarrow>
             (case data_values of
                [] \<Rightarrow> Inl IndexError
              | v # vs \<Rightarrow> Inr (write_cells 0 (int record_id) 8 [v, PStr fw] e)))
      else if tt = 0xe0 then
        (let e1 = e\<lparr>user_notes := take 4 data_values\<rparr>
         in Inr (write_cells 0 (int record_id) 11 [PStr (str_tuple (user_notes e1))] e1))
      else if tt = 0xe1 then
        (if length data_values \<le> 2 then Inl IndexError
         else Inr (write_cells 0 (int record_id) 10 [data_values ! 2] e))
      else
        (case take 5 (drop 1 data_values) of
           [hour, minute, day, month, year] \<Rightarrow>
             (case datetime year month day hour minute of
                Inl err \<Rightarrow> Inl err
              | Inr timestamp \<Rightarrow>
                  Inr (write_cells 0 (int record_id) 1
                         ([hd data_values, timestamp] @ drop 6 data_values) e))
         | _ \<Rightarrow> Inl ValueError))"

text \<open>The loop of the user-data branch, over \<^verbatim>\<open>enumerate(data_values)\<close>.\<close>

fun report_user_data :: "nat \<Rightarrow> (nat \<times> pyval) list \<Rightarrow> env \<Rightarrow> error option \<times> env" where
  "report_user_data record_id [] e = (None, e)"
| "report_user_data record_id ((indx, data_value) # rest) e =
     (if py_bool data_value then
        (if length (user_notes e) \<le> indx then (Some IndexError, e)
         else case as_int (user_notes e ! indx) of
                Inl err \<Rightarrow> (Some err, e)
              | Inr target \<Rightarrow>
                  (case py_index (length (user_counts e)) target of
                     Inl err \<Rightarrow> (Some err, e)
                   | Inr j \<Rightarrow>
                       (let counts = (user_counts e)[j := user_counts e ! j + 1];
                            e1 = e\<lparr>user_counts := counts\<rparr>
                        in case py_index n_worksheets (target + 2) of
                             Inl err \<Rightarrow> (Some err, e1)
                           | Inr sheet \<Rightarrow>
                               report_user_data record_id rest
                                 (write_cells sheet (counts ! j) 0
                                    [PInt (int record_id), data_value] e1))))
      else report_user_data record_id rest e)"

definition report_record :: "nat \<Rightarrow> data \<Rightarrow> nat \<Rightarrow> nat \<Rightarrow> env \<Rightarrow> (error + nat) \<times> env" where
  "report_record record_id current_test tt tid e =
     (let data_values = map snd current_test
      in if tt \<in> {0x01, 0x02, 0x11, 0x12, 0xfe, 0xe0, 0xe1} then
           (case report_record_sheet record_id data_values tt e of
              Inl err \<Rightarrow> (Inl err, e)
            | Inr e1 \<Rightarrow>
                (Inr 0, write_cells 0 (int record_id) 0 [PInt (int record_id)] e1))
         else if (0xf0 \<le> tt \<and> tt < 0xfb) \<or> tt = 0x10 then
           (Inr 1, write_cells 1 (int tid) 0
                     ([PInt (int tid), PInt (int record_id), PInt (int tt)] @ data_values) e)
         else if tt = 0xfb then
           (case report_user_data record_id (zip [0..<length data_values] data_values) e of
              (Some err, e1) \<Rightarrow> (Inl err, e1)
            | (None, e1) \<Rightarrow> (Inr 0, e1))
         else (Inr 0, e))"

section \<open>Sub-record walker: \<^verbatim>\<open>parse_record\<close>\<close>

text \<open>The local variables of \<^verbatim>\<open>parse_record\<close> that the loop changes.\<close>

record locals =
  tests :: registry
  version :: nat
  test_type :: "nat option"
  payload :: "byte list"

text \<open>The head of the loop body: take the type code off the payload, add the newer-style
  entries on a first 0x11 or 0x12, and find the class of the sub-record
  (\<^verbatim>\<open>tests[test_type][1]\<close>).\<close>

definition next_test :: "locals \<Rightarrow> error + locals \<times> nat \<times> sss_class" where
  "next_test l =
     (case payload l of
        [] \<Rightarrow> Inl IndexError
      | b # rest \<Rightarrow>
          (let tt = unat b;
               upgrade = (version l = 1 \<and> (tt = 0x11 \<or> tt = 0x12));
               l1 = l\<lparr>test_type := Some tt, payload := rest,
                      version := (if upgrade then version l + 1 else version l),
                      tests := (if upgrade then dict_update (tests l) TESTS_VERSION_2
                                else tests l)\<rparr>
           in case map_of (tests l1) tt of
                None \<Rightarrow> Inl KeyError
              | Some (label, cls) \<Rightarrow> Inr (l1, tt, cls)))"

text \<open>One pass through the body of the \<^verbatim>\<open>while\<close> loop. An exception leaves the function, so
  the locals are lost and the environment stays as it was when the exception was raised.\<close>

definition loop_body :: "nat \<Rightarrow> locals \<Rightarrow> env \<Rightarrow> (error + locals) \<times> env" where
  "loop_body record_id l e =
     (case next_test l of
        Inl err \<Rightarrow> (Inl err, e)
      | Inr (l1, tt, cls) \<Rightarrow>
          (case unpack cls (take (len cls) (payload l1)) of
             Inl err \<Rightarrow> (Inl err, e)
           | Inr current_test \<Rightarrow>
               (let e1 = e\<lparr>reported :=
                             reported e @ [(record_id, tt, test_id e, current_test)]\<rparr>
                in case report_record record_id current_test tt (test_id e1) e1 of
                     (Inl err, e2) \<Rightarrow> (Inl err, e2)
                   | (Inr tests_written, e2) \<Rightarrow>
                       (Inr (l1\<lparr>payload := drop (len cls) (payload l1)\<rparr>),
                        e2\<lparr>test_id := test_id e2 + tests_written\<rparr>))))"

lemma loop_body_shorter:
  "loop_body record_id l e = (Inr l', e') \<Longrightarrow> length (payload l') < length (payload l)"
  by (auto simp: loop_body_def next_test_def Let_def
      split: list.splits option.splits sum.splits prod.splits)

function parse_record_loop :: "nat \<Rightarrow> locals \<Rightarrow> env \<Rightarrow> error option \<times> env" where
  "parse_record_loop record_id l e =
     (if payload l \<noteq> [] \<and> test_type l \<noteq> Some 0xff then
        (case loop_body record_id l e of
           (Inl err, e') \<Rightarrow> (Some err, e')
         | (Inr l', e') \<Rightarrow> parse_record_loop record_id l' e')
      else (None, e))"
  by pat_completeness auto
termination
  by (relation "measure (\<lambda>(record_id, l, e). length (payload l))")
     (auto dest: loop_body_shorter [OF sym])

declare parse_record_loop.simps [simp del]

text \<open>The locals on entry: \<^verbatim>\<open>tests = TESTS_VERSION_1.copy()\<close>, \<^verbatim>\<open>version = 1\<close>,
  \<^verbatim>\<open>test_type = None\<close>.\<close>

definition initial_locals :: "byte list \<Rightarrow> locals" where
  "initial_locals pl = \<lparr>tests = TESTS_VERSION_1, version = 1, test_type = None, payload = pl\<rparr>"

definition parse_record :: "byte list \<Rightarrow> nat \<Rightarrow> env \<Rightarrow> error option \<times> env" where
  "parse_record pl record_id e = parse_record_loop record_id (initial_locals pl) e"

text \<open>The locals and the environment after \<open>n\<close> full passes of the loop, when the loop makes
  that many without an exception.\<close>

fun loop_after :: "nat \<Rightarrow> nat \<Rightarrow> locals \<Rightarrow> env \<Rightarrow> (locals \<times> env) option" where
  "loop_after 0 record_id l e = Some (l, e)"
| "loop_after (Suc n) record_id l e =
     (if payload l \<noteq> [] \<and> test_type l \<noteq> Some 0xff then
        (case loop_body record_id l e of
           (Inl err, e') \<Rightarrow> None
         | (Inr l', e') \<Rightarrow> loop_after n record_id l' e')
      else None)"

section \<open>The stream: \<^verbatim>\<open>parse_sss\<close> and \<^verbatim>\<open>main\<close>\<close>

lemma records_next_shorter:
  "records_next s = Yield pl rest \<Longrightarrow> length rest < length s"
proof (induction "length s" arbitrary: s rule: less_induct)
  case less
  from less.prems have ne: "s \<noteq> []"
    by (subst (asm) records_next.simps) (auto simp: Let_def)
  then have d: "length (drop (len SSSRecordHeader) s) < length s"
    by (simp add: len_def required_length_def)
  have A: "length rest < length s"
    if "records_next (drop (len SSSRecordHeader) s) = Yield pl rest"
    using less.hyps [OF d that] d by (rule less_trans)
  have B: "length rest < length s"
    if "records_next (drop k (drop (len SSSRecordHeader) s)) = Yield pl rest" for k
  proof -
    have "length (drop k (drop (len SSSRecordHeader) s)) < length s"
      using d by simp
    from less.hyps [OF this that] this show ?thesis by (rule less_trans)
  qed
  have C: "length (drop k (drop (len SSSRecordHeader) s)) < length s" for k
    using d by simp
  from less.prems show ?case
    apply (subst (asm) records_next.simps)
    apply (simp only: Let_def split: if_splits sum.splits option.splits pyval.splits)
    using A B C apply (auto simp del: length_drop drop_drop)
    done
qed

text \<open>The loop of \<^verbatim>\<open>parse_sss\<close>, from the bytes not yet read and the current record id. The
  result is the exception that ended the run, if any, the last value of \<^verbatim>\<open>record_id\<close>, and
  the environment.\<close>

function parse_sss_loop :: "byte list \<Rightarrow> nat \<Rightarrow> env \<Rightarrow> error option \<times> nat \<times> env" where
  "parse_sss_loop s record_id e =
     (case records_next s of
        Stop \<Rightarrow> (None, record_id, e)
      | Fail err \<Rightarrow> (Some err, record_id, e)
      | Yield pl rest \<Rightarrow>
          (case parse_record pl record_id e of
             (Some err, e') \<Rightarrow> (Some err, record_id, e')
           | (None, e') \<Rightarrow> parse_sss_loop rest (record_id + 1) e'))"
  by pat_completeness auto
termination
  by (relation "measure (\<lambda>(s, record_id, e). length s)")
     (auto dest: records_next_shorter)

declare parse_sss_loop.simps [simp del]

text \<open>All the payloads the generator yields before it stops or raises.\<close>

function records_list :: "byte list \<Rightarrow> byte list list" where
  "records_list s =
     (case records_next s of
        Yield pl rest \<Rightarrow> pl # records_list rest
      | _ \<Rightarrow> [])"
  by pat_completeness auto
termination
  by (relation "measure length") (auto dest: records_next_shorter)

declare records_list.simps [simp del]

definition parse_sss :: "byte list \<Rightarrow> env \<Rightarrow> error option \<times> nat \<times> env" where
  "parse_sss filehandle e = parse_sss_loop filehandle 1 e"

text \<open>\<^verbatim>\<open>main\<close> decodes the files named on the command line one after the other in one
  process, each into a new workbook. No exception that the decoder raises is caught, so the
  first one ends the process. The result is what was reported and written for each file (the
  heading rows that \<^verbatim>\<open>initialise_output\<close> puts on every sheet are left out).\<close>

definition new_workbook :: "env \<Rightarrow> env" where
  "new_workbook e = e\<lparr>reported := [], writes := []\<rparr>"

fun main_loop :: "byte list list \<Rightarrow> env \<Rightarrow> (row list \<times> cell_write list) list" where
  "main_loop [] e = []"
| "main_loop (contents # files) e =
     (case parse_sss contents (new_workbook e) of
        (Some err, record_id, e') \<Rightarrow> [(reported e', writes e')]
      | (None, record_id, e') \<Rightarrow> (reported e', writes e') # main_loop files e')"

definition main :: "byte list list \<Rightarrow> (row list \<times> cell_write list) list" where
  "main files = main_loop files initial_env"

section \<open>Reading the reported rows\<close>

text \<open>The type code of a reported row; whether a 0x11 or 0x12 sub-record is among some rows;
  the type codes for which \<^verbatim>\<open>report_record\<close> writes a test row (0x10 and 0xF0 to 0xFA); how
  many of some rows have such a code; and whether every row of a list carries the test id
  that a counter started at \<open>t\<close> and stepped after each such row has when the row is reached.\<close>

definition row_type :: "row \<Rightarrow> nat" where
  "row_type r = fst (snd r)"

definition upgraded :: "row list \<Rightarrow> bool" where
  "upgraded rows = list_ex (\<lambda>r. row_type r = 0x11 \<or> row_type r = 0x12) rows"

definition is_measurement :: "nat \<Rightarrow> bool" where
  "is_measurement tt = (tt = 0x10 \<or> (0xf0 \<le> tt \<and> tt \<le> 0xfa))"

definition measured :: "row list \<Rightarrow> nat" where
  "measured rows = length (filter (\<lambda>r. is_measurement (row_type r)) rows)"

fun numbered :: "nat \<Rightarrow> row list \<Rightarrow> bool" where
  "numbered t [] = True"
| "numbered t ((rid, tt, tid, d) # rows) =
     (tid = t \<and> numbered (if is_measurement tt then t + 1 else t) rows)"

text \<open>The rows reported between two environments of one run.\<close>

definition new_rows :: "env \<Rightarrow> env \<Rightarrow> row list" where
  "new_rows e e' = drop (length (reported e)) (reported e')"

text \<open>What a stretch of a run from \<open>e\<close> to \<open>e'\<close> keeps: the rows reported before stay, the
  new rows carry record ids between \<open>lo\<close> and \<open>hi\<close> in ascending order and the test ids of a
  counter that steps after each measurement row, and the test id counter ends advanced by the
  number of new measurement rows.\<close>

definition counted :: "nat \<Rightarrow> nat \<Rightarrow> env \<Rightarrow> env \<Rightarrow> bool" where
  "counted lo hi e e' =
     (let new = new_rows e e'
      in reported e' = reported e @ new \<and> numbered (test_id e) new
         \<and> test_id e' = test_id e + measured new
         \<and> (\<forall>r\<in>set new. lo \<le> fst r \<and> fst r \<le> hi) \<and> sorted (map fst new))"

text \<open>The 86 bytes of a visual sub-record, for the examples: item "A1", 12:00 on
  1 February 2019, the other text fields empty.\<close>

definition sample_visual :: "byte list" where
  "sample_visual = [0x41, 0x31] @ replicate 14 0 @ [12, 0, 1, 2, 0x07, 0xE3] @ replicate 64 0"

section \<open>The packed form in the words of the specification\<close>

text \<open>The specification describes a packed 16-bit field whose uppermost bit is a pass flag and
  whose low 15 bits are the magnitude. This is that description, for comparison with what the
  classes above do.\<close>

definition spec_packed_split :: "int \<Rightarrow> bool \<times> int" where
  "spec_packed_split v = (bit v 15, v AND 0x7fff)"

section \<open>Auxiliary facts\<close>

lemma map_of_od_set: "map_of (od_set k v d) = (map_of d)(k \<mapsto> v)"
  by (induction d) (auto simp: fun_eq_iff)

lemma round_half_even_error: "\<bar>of_int (round_half_even y) - y\<bar> \<le> 1 / 2"
proof -
  have a: "of_int \<lfloor>y\<rfloor> \<le> y" and b: "y < of_int \<lfloor>y\<rfloor> + 1"
    by linarith+
  show ?thesis
    unfolding round_half_even_def Let_def using a b by auto
qed

lemma binade_le:
  assumes "0 < q"
  shows "2 powi (binade q) \<le> q"
proof -
  obtain a b where ab: "quotient_of q = (a, b)" by (cases "quotient_of q")
  then have b: "0 < b" and q: "q = of_int a / of_int b"
    by (auto dest: quotient_of_denom_pos quotient_of_div)
  from assms b q have a: "0 < a"
    by (simp add: zero_less_divide_iff)
  let ?k = "bitlen a - bitlen b"
  show ?thesis
  proof (cases "2 powi ?k \<le> q")
    case True
    then show ?thesis by (simp add: binade_def ab)
  next
    case False
    then have k: "binade q = ?k - 1" by (simp add: binade_def ab)
    from bitlen_bounds [OF a] have la: "(2::int) ^ nat (bitlen a - 1) \<le> a" by simp
    from bitlen_bounds [OF b] have ub: "b < (2::int) ^ nat (bitlen b)" by simp
    have ba: "1 \<le> bitlen a" using a bitlen_eq_zero_iff [of a] bitlen_nonneg [of a] by linarith
    have bb: "0 \<le> bitlen b" by (rule bitlen_nonneg)
    from la have la': "(2::rat) ^ nat (bitlen a - 1) \<le> of_int a"
      by (metis of_int_le_iff of_int_numeral of_int_power)
    from ub have ub': "of_int b \<le> (2::rat) ^ nat (bitlen b)"
      by (metis less_imp_le of_int_le_iff of_int_numeral of_int_power)
    have "?k - 1 = (bitlen a - 1) - bitlen b" by simp
    then have "(2::rat) powi (?k - 1) = 2 powi (bitlen a - 1) / 2 powi (bitlen b)"
      by (simp only: power_int_diff [of "2::rat", simplified])
    also have "\<dots> = 2 ^ nat (bitlen a - 1) / 2 ^ nat (bitlen b)"
      using ba bb by (simp add: power_int_def)
    also have "\<dots> \<le> of_int a / of_int b"
      using la' ub' b a by (intro frac_le) auto
    finally have "(2::rat) powi (?k - 1) \<le> q" unfolding q .
    then show ?thesis by (simp only: k)
  qed
qed

lemma binade_less:
  assumes "0 < q"
  shows "q < 2 powi (binade q + 1)"
proof -
  obtain a b where ab: "quotient_of q = (a, b)" by (cases "quotient_of q")
  then have b: "0 < b" and q: "q = of_int a / of_int b"
    by (auto dest: quotient_of_denom_pos quotient_of_div)
  from assms b q have a: "0 < a"
    by (simp add: zero_less_divide_iff)
  let ?k = "bitlen a - bitlen b"
  show ?thesis
  proof (cases "2 powi ?k \<le> q")
    case False
    then have "binade q = ?k - 1" by (simp add: binade_def ab)
    with False show ?thesis by simp
  next
    case True
    then have k: "binade q = ?k" by (simp add: binade_def ab)
    from bitlen_bounds [OF a] have ua: "a < (2::int) ^ nat (bitlen a)" by simp
    from bitlen_bounds [OF b] have lb: "(2::int) ^ nat (bitlen b - 1) \<le> b" by simp
    have bb: "1 \<le> bitlen b" using b bitlen_eq_zero_iff [of b] bitlen_nonneg [of b] by linarith
    have ba: "0 \<le> bitlen a" by (rule bitlen_nonneg)
    from ua have ua': "of_int a < (2::rat) ^ nat (bitlen a)"
      by (metis of_int_less_iff of_int_numeral of_int_power)
    from lb have lb': "(2::rat) ^ nat (bitlen b - 1) \<le> of_int b"
      by (metis of_int_le_iff of_int_numeral of_int_power)
    have "of_int a / of_int b < (2::rat) ^ nat (bitlen a) / 2 ^ nat (bitlen b - 1)"
      using ua' lb' a b by (intro frac_less) auto
    also have "\<dots> = 2 powi (bitlen a) / 2 powi (bitlen b - 1)"
      using ba bb by (simp add: power_int_def)
    also have "\<dots> = 2 powi (bitlen a - (bitlen b - 1))"
      by (simp only: power_int_diff [of "2::rat", simplified])
    also have "bitlen a - (bitlen b - 1) = ?k + 1" by simp
    finally have "q < 2 powi (?k + 1)" unfolding q .
    then show ?thesis by (simp only: k)
  qed
qed

lemma nearest_double_error:
  assumes "0 < q"
  shows "\<bar>nearest_double q - q\<bar> \<le> q / 2 ^ 53"
proof -
  let ?k = "binade \<bar>q\<bar>"
  let ?u = "(2::rat) powi (?k - 52)"
  have u: "0 < ?u" by simp
  have nd: "nearest_double q = of_int (round_half_even (q / ?u)) * ?u"
    using assms by (simp add: nearest_double_def Let_def)
  have "nearest_double q - q = (of_int (round_half_even (q / ?u)) - q / ?u) * ?u"
    using u by (simp add: nd algebra_simps)
  then have "\<bar>nearest_double q - q\<bar> = \<bar>of_int (round_half_even (q / ?u)) - q / ?u\<bar> * ?u"
    using u by (simp add: abs_mult)
  also have "\<dots> \<le> (1 / 2) * ?u"
    using round_half_even_error [of "q / ?u"] u by (intro mult_right_mono) auto
  also have "\<dots> = 2 powi ?k / 2 ^ 53"
  proof -
    have "?k - 52 = (?k - 53) + 1" by simp
    then have "?u = 2 powi (?k - 53) * 2"
      by (simp only: power_int_add [of "2::rat", simplified] power_int_1_right)
    moreover have "(2::rat) powi (?k - 53) = 2 powi ?k / 2 powi 53"
      by (simp only: power_int_diff [of "2::rat", simplified])
    ultimately show ?thesis by simp
  qed
  also have "\<dots> \<le> q / 2 ^ 53"
    using binade_le [of "\<bar>q\<bar>"] assms by (simp add: divide_right_mono)
  finally show ?thesis .
qed


lemma double_product_error:
  assumes x: "0 < x" and m: "0 \<le> m"
  shows "\<bar>float_mul_int (nearest_double x) m - x * of_int m\<bar> \<le> x * of_int m / 2 ^ 51"
proof (cases "m = 0")
  case True
  then show ?thesis by (simp add: float_mul_int_def nearest_double_def)
next
  case False
  with m have y: "(0::rat) < of_int m" by simp
  define y :: rat where "y = of_int m"
  define c where "c = nearest_double x"
  from y have y0: "0 < y" by (simp add: y_def)
  from nearest_double_error [OF x] have A: "\<bar>c - x\<bar> \<le> x / 2 ^ 53" by (simp add: c_def)
  have "x / 2 ^ 53 \<le> x / 2" using x by (simp add: field_simps)
  with A have A2: "\<bar>c - x\<bar> \<le> x / 2" by linarith
  from A2 x have c0: "0 < c" by linarith
  from A2 x have c2: "c \<le> 2 * x" by linarith
  have cy: "0 < c * y" using c0 y0 by simp
  from nearest_double_error [OF cy]
  have B: "\<bar>nearest_double (c * y) - c * y\<bar> \<le> c * y / 2 ^ 53" .
  have "c * y \<le> 2 * x * y" using c2 y0 by (simp add: mult_right_mono)
  then have B': "c * y / 2 ^ 53 \<le> 2 * (x * y) / 2 ^ 53"
    by (simp add: divide_right_mono algebra_simps)
  have "\<bar>c * y - x * y\<bar> = \<bar>c - x\<bar> * y"
    using y0 by (simp add: abs_mult left_diff_distrib [symmetric])
  also have "\<dots> \<le> x / 2 ^ 53 * y" using A y0 by (simp add: mult_right_mono)
  finally have C: "\<bar>c * y - x * y\<bar> \<le> (x * y) / 2 ^ 53" by simp
  have "\<bar>nearest_double (c * y) - x * y\<bar> \<le> 3 * (x * y) / 2 ^ 53"
    using B B' C by linarith
  also have "\<dots> \<le> (x * y) / 2 ^ 51"
    using x y0 by (simp add: field_simps)
  finally show ?thesis by (simp add: float_mul_int_def c_def y_def)
qed

lemma and_3fff: "(v::int) AND 0x3fff = v mod 16384"
proof -
  have "v AND mask 14 = v mod 2 ^ 14"
    by (simp only: take_bit_eq_mask [symmetric] take_bit_eq_mod)
  then show ?thesis by (simp add: mask_eq_exp_minus_1)
qed

lemma and_ffff: "(v::int) AND 0xffff = v mod 65536"
proof -
  have "v AND mask 16 = v mod 2 ^ 16"
    by (simp only: take_bit_eq_mask [symmetric] take_bit_eq_mod)
  then show ?thesis by (simp add: mask_eq_exp_minus_1)
qed

lemma be_int2: "be_int [h, l] = uint h * 256 + uint l"
  by (simp add: be_int_def)

lemma be_int1: "be_int [b] = uint b"
  by (simp add: be_int_def)

lemma len_header: "len SSSRecordHeader = 6"
  by (simp add: len_def required_length_def)

lemmas unpack_defs = unpack_def sdb_unpack_def required_length_def then_do_def
  rescale_def passed_def truthy_def zero_no_result_def be_int1

lemma rescale_zero: "py_eq_int (rescale_val v) 0 \<longleftrightarrow> py_float (rescale_val v) = Inr 0"
  by (simp add: rescale_val_def py_float_def Let_def)

lemma unpack_header:
  "unpack SSSRecordHeader [lh, ll, na, nb, ch, cl] =
     Inr [(''payload_length'', PInt (be_int [lh, ll])), (''nulls'', PInt (be_int [na, nb])),
          (''checksum_header'', PInt (be_int [ch, cl]))]"
  by (simp add: unpack_defs)

lemma zero_length_skipped:
  "records_next ([0, 0, na, nb, ch, cl] @ rest) = records_next rest"
  by (subst records_next.simps) (simp add: len_header unpack_header Let_def be_int2)

lemma short_header: "s \<noteq> [] \<Longrightarrow> length s < 6 \<Longrightarrow> unpack SSSRecordHeader s = Inl StructError"
  by (simp add: unpack_defs)

lemma unpack_er1:
  "unpack SSSEarthResistanceTest [h, l] = Inr [(''resistance'', rescale_val (be_int [h, l]))]"
  by (simp add: unpack_defs)

lemma unpack_ei1:
  "unpack SSSEarthInsulationTest [h, l] = Inr [(''resistance'', rescale_val (be_int [h, l]))]"
  by (simp add: unpack_defs)

lemma unpack_cur1:
  "unpack SSSCurrentTest [h, l] = Inr [(''current'', rescale_val (be_int [h, l]))]"
  by (simp add: unpack_defs)

lemma unpack_pl1:
  "unpack SSSPowerLeakTest [a, b, c, d] =
     Inr [(''leakage'', rescale_val (be_int [a, b])), (''load'', rescale_val (be_int [c, d]))]"
  by (simp add: unpack_defs)

lemma unpack_cont1:
  "unpack SSSContinuityTest [h, l] =
     Inr [(''resistance'',
           if py_float (rescale_val (be_int [h, l])) = Inr 0 then PStr ''(no result)''
           else rescale_val (be_int [h, l]))]"
  by (simp add: unpack_defs rescale_zero)

lemma unpack_er2:
  "unpack SSSEarthResistanceTestv2 [c, p, h, l] =
     Inr [(''current'', PInt (uint c)), (''pass'', PBool (uint p = 1)),
          (''resistance'', rescale_val (be_int [h, l]))]"
  by (simp add: unpack_defs)

lemma unpack_ei2:
  "unpack SSSEarthInsulationTestv2 [p, h, l] =
     Inr [(''pass'', PBool (uint p = 1)), (''resistance'', rescale_val (be_int [h, l]))]"
  by (simp add: unpack_defs)

lemma unpack_cur2:
  "unpack SSSCurrentTestv2 [p, h, l] =
     Inr [(''pass'', PBool (uint p = 1)), (''current'', rescale_val (be_int [h, l]))]"
  by (simp add: unpack_defs)

lemma unpack_cont2:
  "unpack SSSContinuityTestv2 [p, h, l] =
     Inr [(''pass'', PBool (uint p = 1)),
          (''resistance'',
           if py_float (rescale_val (be_int [h, l])) = Inr 0 then PStr ''(no result)''
           else rescale_val (be_int [h, l]))]"
  by (simp add: unpack_defs rescale_zero)

lemma unpack_pl2:
  "unpack SSSPowerLeakTestv2 [p, a, b, c, d] =
     Inr [(''pass'', PBool (uint p \<noteq> 0)), (''leakage'', rescale_val (be_int [a, b])),
          (''load'', rescale_val (be_int [c, d]))]"
  by (simp add: unpack_defs)

section \<open>The frame reader\<close>

text \<open>C3, as the code has it: when no byte is left at a record boundary the frame reader stops
  cleanly and the run ends without an error and without a further row; when one to five bytes
  are left, unpacking the short header raises, and the run ends with that error, again without
  a further row.\<close>

theorem truncated_header:
  assumes "length s < 6"
  shows "records_next s = (if s = [] then Stop else Fail StructError)
       \<and> parse_sss_loop s rid e = (if s = [] then None else Some StructError, rid, e)"
proof -
  have r: "records_next s = (if s = [] then Stop else Fail StructError)"
    using assms by (subst records_next.simps) (simp add: len_header short_header Let_def)
  then show ?thesis
    by (subst parse_sss_loop.simps) simp
qed

theorem truncated_header_witness:
  "records_next [] = Stop \<and> records_next [0, 1, 0] = Fail StructError
   \<and> parse_sss_loop [] 1 initial_env = (None, 1, initial_env)
   \<and> parse_sss_loop [0, 1, 0] 1 initial_env = (Some StructError, 1, initial_env)"
  using truncated_header [of "[]" 1 initial_env] truncated_header [of "[0, 1, 0]" 1 initial_env]
  by simp

text \<open>C3 as stated fails: after one good record, three trailing bytes end the run with an
  error.\<close>

theorem truncated_header_counterexample:
  "fst (parse_sss ([0, 1, 0, 0, 0, 0xF0, 0xF0] @ [0, 1, 0]) initial_env) = Some StructError"
  by code_simp

text \<open>C4, as the code has it: for a record whose payload is not empty, the frame reader yields
  the payload if and only if the sum of its bytes modulo 65536 equals the checksum field of the
  header; on a mismatch nothing is yielded, reading goes on at the next header, and the run
  over the whole stream is the run over what follows the record.\<close>

theorem checksum_gate:
  assumes "length pl = nat (be_int [lh, ll])" and "pl \<noteq> []"
  shows "records_next ([lh, ll, na, nb, ch, cl] @ pl @ rest)
           = (if sum_list (map uint pl) mod 65536 = be_int [ch, cl] then Yield pl rest
              else records_next rest)
       \<and> (sum_list (map uint pl) mod 65536 \<noteq> be_int [ch, cl] \<longrightarrow>
            parse_sss_loop ([lh, ll, na, nb, ch, cl] @ pl @ rest) rid e
              = parse_sss_loop rest rid e)"
proof -
  from assms have n: "be_int [lh, ll] \<noteq> 0" by auto
  have "records_next ([lh, ll, na, nb, ch, cl] @ pl @ rest)
           = (if be_int [ch, cl] = sum_list (map uint pl) mod 65536 then Yield pl rest
              else records_next rest)"
    using n assms(1)
    by (subst records_next.simps)
       (simp add: len_header unpack_header Let_def checksum_def and_ffff)
  then have r: "records_next ([lh, ll, na, nb, ch, cl] @ pl @ rest)
           = (if sum_list (map uint pl) mod 65536 = be_int [ch, cl] then Yield pl rest
              else records_next rest)"
    by auto
  show ?thesis
  proof (intro conjI impI)
    show "records_next ([lh, ll, na, nb, ch, cl] @ pl @ rest)
           = (if sum_list (map uint pl) mod 65536 = be_int [ch, cl] then Yield pl rest
              else records_next rest)" by (rule r)
  next
    assume m: "sum_list (map uint pl) mod 65536 \<noteq> be_int [ch, cl]"
    show "parse_sss_loop ([lh, ll, na, nb, ch, cl] @ pl @ rest) rid e = parse_sss_loop rest rid e"
      by (subst parse_sss_loop.simps, subst (2) parse_sss_loop.simps) (simp only: r m if_False)
  qed
qed

theorem checksum_gate_witness:
  "records_next ([0, 1, 0, 0, 0, 0xF0] @ [0xF0] @ [0, 1, 0, 0, 0, 0xF1, 0xF1])
     = Yield [0xF0] [0, 1, 0, 0, 0, 0xF1, 0xF1]
   \<and> records_next ([0, 1, 0, 0, 0, 0xEE] @ [0xF0] @ [0, 1, 0, 0, 0, 0xF1, 0xF1])
     = records_next [0, 1, 0, 0, 0, 0xF1, 0xF1]
   \<and> parse_sss_loop ([0, 1, 0, 0, 0, 0xEE] @ [0xF0] @ [0, 1, 0, 0, 0, 0xF1, 0xF1]) 1 initial_env
     = parse_sss_loop [0, 1, 0, 0, 0, 0xF1, 0xF1] 1 initial_env"
  using checksum_gate [where pl = "[0xF0]" and lh = 0 and ll = 1 and na = 0 and nb = 0
          and ch = 0 and cl = "0xF0" and rest = "[0, 1, 0, 0, 0, 0xF1, 0xF1]"]
        checksum_gate [where pl = "[0xF0]" and lh = 0 and ll = 1 and na = 0 and nb = 0
          and ch = 0 and cl = "0xEE" and rest = "[0, 1, 0, 0, 0, 0xF1, 0xF1]" and rid = 1
          and e = initial_env]
  by (simp add: be_int2)

text \<open>C4 as stated fails for a record with a payload length of zero: the sum of its (empty)
  payload equals its checksum field 0, yet the first thing the reader yields is the payload of
  the record after it.\<close>

theorem checksum_gate_counterexample:
  "sum_list (map uint ([] :: byte list)) mod 65536 = be_int [0, 0]
   \<and> records_next ([0, 0, 0, 0, 0, 0] @ [] @ [0, 1, 0, 0, 0, 0xF1, 0xF1]) = Yield [0xF1] []"
  by code_simp

section \<open>Rescaling and the transforms of the test classes\<close>

text \<open>C5, as the code has it: for every raw 16-bit magnitude \<open>v\<close>, the exponent \<open>v >> 14\<close> is
  the quotient of \<open>v\<close> by 16384 and lies in 0 to 3, and the mantissa \<open>v & 0x3FFF\<close> is the
  remainder. Rescaling a field that holds \<open>v\<close> stores under the same key the integer mantissa
  when the exponent is 0, and otherwise the double that the float product of \<open>10**-exponent\<close>
  and the mantissa rounds to. That number is the mantissa divided by ten to the exponent up
  to a relative error of \<open>2^-51\<close>, and not always exactly it. A field holding 0x4064 rescales
  to exactly 10.0.\<close>

theorem rescale_law:
  assumes "0 \<le> v" and "v \<le> 65535" and "map_of d key = Some (PInt v)"
  shows "rescale key d = Inr (od_set key (rescale_val v) d)
       \<and> field_of (rescale key d) key = Some (rescale_val v)
       \<and> drop_bit 14 v = v div 16384 \<and> v AND 0x3fff = v mod 16384
       \<and> 0 \<le> v div 16384 \<and> v div 16384 \<le> 3
       \<and> rescale_val v =
           (if v div 16384 = 0 then PInt (v mod 16384)
            else PFloat (nearest_double
                   (nearest_double (1 / 10 ^ nat (v div 16384)) * of_int (v mod 16384))))
       \<and> (\<exists>r. py_float (rescale_val v) = Inr r
              \<and> \<bar>r - of_int (v mod 16384) / 10 ^ nat (v div 16384)\<bar>
                  \<le> of_int (v mod 16384) / 10 ^ nat (v div 16384) / 2 ^ 51)
       \<and> rescale ''resistance'' [(''resistance'', PInt 0x4064)]
           = Inr [(''resistance'', PFloat 10)]"
proof -
  define e where "e = v div 16384"
  define m where "m = v mod 16384"
  have e: "0 \<le> e" "e \<le> 3" using assms(1,2) by (auto simp: e_def)
  have m: "0 \<le> m" by (simp add: m_def)
  have db: "drop_bit 14 v = e" by (simp add: drop_bit_eq_div e_def)
  have an: "v AND 0x3fff = m" by (simp add: and_3fff m_def)
  have r: "rescale key d = Inr (od_set key (rescale_val v) d)"
    using assms(3) by (simp add: rescale_def)
  have f: "field_of (rescale key d) key = Some (rescale_val v)"
    by (simp add: r field_of_def map_of_od_set)
  have val: "rescale_val v =
           (if e = 0 then PInt m
            else PFloat (nearest_double (nearest_double (1 / 10 ^ nat e) * of_int m)))"
    using e by (simp add: rescale_val_def Let_def db an float_mul_int_def pow10_neg_def)
  have err: "\<exists>r. py_float (rescale_val v) = Inr r
              \<and> \<bar>r - of_int m / 10 ^ nat e\<bar> \<le> of_int m / 10 ^ nat e / 2 ^ 51"
  proof (cases "e = 0")
    case True
    with m show ?thesis by (simp add: val py_float_def)
  next
    case False
    have "(0::rat) < 1 / 10 ^ nat e" by simp
    from double_product_error [OF this m]
    have "\<bar>float_mul_int (nearest_double (1 / 10 ^ nat e)) m - of_int m / 10 ^ nat e\<bar>
            \<le> of_int m / 10 ^ nat e / 2 ^ 51"
      by simp
    with False show ?thesis
      by (simp add: val py_float_def float_mul_int_def)
  qed
  have x: "rescale ''resistance'' [(''resistance'', PInt 0x4064)]
           = Inr [(''resistance'', PFloat 10)]"
    by code_simp
  from r f db an e val err x show ?thesis
    unfolding e_def m_def by (intro conjI)
qed

theorem rescale_law_witness:
  "rescale ''current'' [(''current'', PInt 0x4003)]
     = Inr (od_set ''current'' (rescale_val 0x4003) [(''current'', PInt 0x4003)])
   \<and> rescale_val 0x4003 = PFloat (1351079888211149 / 2 ^ 52)
   \<and> \<bar>(1351079888211149 / 2 ^ 52 :: rat) - 3 / 10\<bar> \<le> 3 / 10 / 2 ^ 51"
proof -
  have h: "(0::int) \<le> 0x4003" "(0x4003::int) \<le> 65535"
    "map_of [(''current'', PInt 0x4003)] ''current'' = Some (PInt 0x4003)"
    by simp_all
  note c = rescale_law [OF h]
  from c have a: "rescale ''current'' [(''current'', PInt 0x4003)]
     = Inr (od_set ''current'' (rescale_val 0x4003) [(''current'', PInt 0x4003)])"
    by (elim conjE)
  have b: "rescale_val 0x4003 = PFloat (1351079888211149 / 2 ^ 52)"
    by code_simp
  have d: "\<bar>(1351079888211149 / 2 ^ 52 :: rat) - 3 / 10\<bar> \<le> 3 / 10 / 2 ^ 51"
    by simp
  from a b d show ?thesis by (intro conjI)
qed

text \<open>C5 as stated fails: a field holding 0x4003 (exponent 1, mantissa 3) rescales to the
  double 0.30000000000000004, which is not three tenths.\<close>

theorem rescale_exact_counterexample:
  "rescale ''resistance'' [(''resistance'', PInt 0x4003)]
     = Inr [(''resistance'', PFloat (1351079888211149 / 2 ^ 52))]
   \<and> (1351079888211149 / 2 ^ 52 :: rat) \<noteq> 3 / 10
   \<and> py_float (rescale_val 0x4003)
       \<noteq> Inr (of_int (0x4003 AND 0x3fff) / 10 ^ nat (drop_bit 14 0x4003))"
  by code_simp

text \<open>C7, as the code has it: no class splits a flag bit from the 16-bit field. In both
  layouts the whole field is rescaled; a version-1 sub-record has no pass flag; a version-2
  sub-record takes its pass flag from the separate byte before the field; and for the same
  16-bit field the two layouts expose the same magnitude. This holds for earth resistance,
  earth insulation, the leakage currents, load/leakage and continuity.\<close>

theorem layouts_same_magnitude:
  "field_of (unpack SSSEarthResistanceTest [h, l]) ''pass'' = None
   \<and> field_of (unpack SSSEarthResistanceTest [h, l]) ''resistance''
       = Some (rescale_val (be_int [h, l]))
   \<and> field_of (unpack SSSEarthResistanceTestv2 [c, p, h, l]) ''pass'' = Some (PBool (uint p = 1))
   \<and> field_of (unpack SSSEarthResistanceTestv2 [c, p, h, l]) ''resistance''
       = field_of (unpack SSSEarthResistanceTest [h, l]) ''resistance''
   \<and> field_of (unpack SSSEarthInsulationTest [h, l]) ''pass'' = None
   \<and> field_of (unpack SSSEarthInsulationTest [h, l]) ''resistance''
       = Some (rescale_val (be_int [h, l]))
   \<and> field_of (unpack SSSEarthInsulationTestv2 [p, h, l]) ''pass'' = Some (PBool (uint p = 1))
   \<and> field_of (unpack SSSEarthInsulationTestv2 [p, h, l]) ''resistance''
       = field_of (unpack SSSEarthInsulationTest [h, l]) ''resistance''
   \<and> field_of (unpack SSSCurrentTest [h, l]) ''pass'' = None
   \<and> field_of (unpack SSSCurrentTest [h, l]) ''current'' = Some (rescale_val (be_int [h, l]))
   \<and> field_of (unpack SSSCurrentTestv2 [p, h, l]) ''pass'' = Some (PBool (uint p = 1))
   \<and> field_of (unpack SSSCurrentTestv2 [p, h, l]) ''current''
       = field_of (unpack SSSCurrentTest [h, l]) ''current''
   \<and> field_of (unpack SSSPowerLeakTest [h, l, h', l']) ''pass'' = None
   \<and> field_of (unpack SSSPowerLeakTest [h, l, h', l']) ''leakage''
       = Some (rescale_val (be_int [h, l]))
   \<and> field_of (unpack SSSPowerLeakTest [h, l, h', l']) ''load''
       = Some (rescale_val (be_int [h', l']))
   \<and> field_of (unpack SSSPowerLeakTestv2 [p, h, l, h', l']) ''pass''
       = Some (PBool (uint p \<noteq> 0))
   \<and> field_of (unpack SSSPowerLeakTestv2 [p, h, l, h', l']) ''leakage''
       = field_of (unpack SSSPowerLeakTest [h, l, h', l']) ''leakage''
   \<and> field_of (unpack SSSPowerLeakTestv2 [p, h, l, h', l']) ''load''
       = field_of (unpack SSSPowerLeakTest [h, l, h', l']) ''load''
   \<and> field_of (unpack SSSContinuityTest [h, l]) ''pass'' = None
   \<and> field_of (unpack SSSContinuityTestv2 [p, h, l]) ''pass'' = Some (PBool (uint p = 1))
   \<and> field_of (unpack SSSContinuityTestv2 [p, h, l]) ''resistance''
       = field_of (unpack SSSContinuityTest [h, l]) ''resistance''"
  by (simp only: unpack_er1 unpack_er2 unpack_ei1 unpack_ei2 unpack_cur1 unpack_cur2
        unpack_pl1 unpack_pl2 unpack_cont1 unpack_cont2 field_of_def) simp

theorem layouts_same_magnitude_witness:
  "field_of (unpack SSSEarthResistanceTest [0x80, 0x01]) ''pass'' = None
   \<and> field_of (unpack SSSEarthResistanceTestv2 [0x19, 0x01, 0x80, 0x01]) ''pass''
       = Some (PBool True)
   \<and> field_of (unpack SSSEarthResistanceTestv2 [0x19, 0x01, 0x80, 0x01]) ''resistance''
       = field_of (unpack SSSEarthResistanceTest [0x80, 0x01]) ''resistance''"
  using layouts_same_magnitude [of "0x80" "0x01" "0x19" "0x01"] by simp

text \<open>C7 as stated fails: the version-1 earth resistance field 0x8001 decodes to the single
  entry resistance = 0.01 (the double), with no flag, whereas the split of the specification gives the flag
  true and the magnitude 1, which rescales to 1.\<close>

theorem packed_flag_counterexample:
  "unpack SSSEarthResistanceTest [0x80, 0x01]
     = Inr [(''resistance'', PFloat (5764607523034235 / 2 ^ 59))]
   \<and> fst (spec_packed_split (be_int [0x80, 0x01])) = True
   \<and> rescale_val (snd (spec_packed_split (be_int [0x80, 0x01]))) = PInt 1"
  by code_simp

text \<open>C9: a continuity sub-record of either version exposes the text "(no result)" as its
  resistance when the rescaled value is exactly zero, and the rescaled value itself otherwise.\<close>

theorem continuity_no_result:
  "unpack SSSContinuityTest [h, l] =
     Inr [(''resistance'',
           if py_float (rescale_val (be_int [h, l])) = Inr 0 then PStr ''(no result)''
           else rescale_val (be_int [h, l]))]
   \<and> unpack SSSContinuityTestv2 [p, h, l] =
     Inr [(''pass'', PBool (uint p = 1)),
          (''resistance'',
           if py_float (rescale_val (be_int [h, l])) = Inr 0 then PStr ''(no result)''
           else rescale_val (be_int [h, l]))]"
  by (simp only: unpack_cont1 unpack_cont2)

theorem continuity_no_result_witness:
  "unpack SSSContinuityTest [0x40, 0x00] = Inr [(''resistance'', PStr ''(no result)'')]
   \<and> unpack SSSContinuityTestv2 [0x01, 0x40, 0x64] =
       Inr [(''pass'', PBool True), (''resistance'', PFloat 10)]"
proof -
  have a: "py_float (rescale_val (be_int [0x40, 0x00])) = Inr 0"
    by code_simp
  have b: "rescale_val (be_int [0x40, 0x64]) = PFloat 10"
    by code_simp
  have c: "py_float (PFloat 10) \<noteq> Inr 0"
    by (simp add: py_float_def)
  from continuity_no_result [of "0x40" "0x00"] continuity_no_result [of "0x40" "0x64" "0x01"]
  show ?thesis
    by (simp add: a b c)
qed

text \<open>C10: the version-2 earth resistance, leakage current, earth insulation and continuity
  sub-records expose a pass flag that is true exactly when the raw pass byte equals 1; the
  version-2 load/leakage sub-record exposes one that is true exactly when the raw pass byte is
  not zero.\<close>

theorem pass_flag_normalisation:
  "field_of (unpack SSSEarthResistanceTestv2 [c, p, h, l]) ''pass'' = Some (PBool (uint p = 1))
   \<and> field_of (unpack SSSCurrentTestv2 [p, h, l]) ''pass'' = Some (PBool (uint p = 1))
   \<and> field_of (unpack SSSEarthInsulationTestv2 [p, h, l]) ''pass'' = Some (PBool (uint p = 1))
   \<and> field_of (unpack SSSContinuityTestv2 [p, h, l]) ''pass'' = Some (PBool (uint p = 1))
   \<and> field_of (unpack SSSPowerLeakTestv2 [p, h, l, h', l']) ''pass''
       = Some (PBool (uint p \<noteq> 0))"
  by (simp only: unpack_er2 unpack_ei2 unpack_cur2 unpack_pl2 unpack_cont2 field_of_def) simp

theorem pass_flag_normalisation_witness:
  "field_of (unpack SSSEarthResistanceTestv2 [0, 2, 0, 0]) ''pass'' = Some (PBool False)
   \<and> field_of (unpack SSSPowerLeakTestv2 [2, 0, 0, 0, 0]) ''pass'' = Some (PBool True)"
  using pass_flag_normalisation [of 0 2 0 0 0 0] by simp

section \<open>What reporting changes\<close>

lemma write_cells_keeps [simp]:
  "test_id (write_cells sh r c vs e) = test_id e"
  "reported (write_cells sh r c vs e) = reported e"
  by (simp_all add: write_cells_def)

lemma report_user_data_keeps:
  "report_user_data rid xs e = (r, e') \<Longrightarrow> test_id e' = test_id e \<and> reported e' = reported e"
proof (induction xs arbitrary: e)
  case Nil
  then show ?case by simp
next
  case (Cons x xs)
  obtain indx data_value where x: "x = (indx, data_value)" by (cases x)
  show ?case
  proof (cases "py_bool data_value")
    case False
    with Cons.prems x have "report_user_data rid xs e = (r, e')" by simp
    then show ?thesis by (rule Cons.IH)
  next
    case True
    show ?thesis
    proof (cases "length (user_notes e) \<le> indx")
      case True
      with Cons.prems x \<open>py_bool data_value\<close> show ?thesis by simp
    next
      case False
      note ix = this
      show ?thesis
      proof (cases "as_int (user_notes e ! indx)")
        case (Inl err)
        with Cons.prems x True ix show ?thesis by simp
      next
        case (Inr target)
        note tg = this
        show ?thesis
        proof (cases "py_index (length (user_counts e)) target")
          case (Inl err)
          with Cons.prems x True ix tg show ?thesis by simp
        next
          case (Inr j)
          note jj = this
          let ?e1 = "e\<lparr>user_counts := (user_counts e)[j := user_counts e ! j + 1]\<rparr>"
          show ?thesis
          proof (cases "py_index n_worksheets (target + 2)")
            case (Inl err)
            with Cons.prems x True ix tg jj have "e' = ?e1" by (simp add: Let_def)
            then show ?thesis by simp
          next
            case (Inr sheet)
            with Cons.prems x True ix tg jj
            have "report_user_data rid xs
                    (write_cells sheet ((user_counts e)[j := user_counts e ! j + 1] ! j) 0
                       [PInt (int rid), data_value] ?e1) = (r, e')"
              by (simp add: Let_def)
            from Cons.IH [OF this] show ?thesis by simp
          qed
        qed
      qed
    qed
  qed
qed

lemma report_record_sheet_keeps:
  assumes "report_record_sheet rid vs tt e = Inr e'"
  shows "test_id e' = test_id e \<and> reported e' = reported e"
proof -
  consider "tt = 0xfe" | "tt \<noteq> 0xfe" "tt = 0xe0" | "tt \<noteq> 0xfe" "tt \<noteq> 0xe0" "tt = 0xe1"
    | "tt \<noteq> 0xfe" "tt \<noteq> 0xe0" "tt \<noteq> 0xe1" by blast
  then show ?thesis
  proof cases
    case 1
    with assms show ?thesis
      by (auto simp: report_record_sheet_def split: sum.splits list.splits)
  next
    case 2
    with assms show ?thesis
      by (auto simp: report_record_sheet_def Let_def)
  next
    case 3
    with assms show ?thesis
      by (auto simp: report_record_sheet_def split: if_splits)
  next
    case 4
    with assms show ?thesis
      by (simp add: report_record_sheet_def split: sum.splits list.splits) auto
  qed
qed

lemma measurement_cond: "((0xf0 \<le> tt \<and> tt < 0xfb) \<or> tt = 0x10) = is_measurement tt"
  unfolding is_measurement_def by arith

lemma record_sheet_codes:
  "tt \<in> {0x01, 0x02, 0x11, 0x12, 0xfe, 0xe0, 0xe1} \<Longrightarrow> \<not> is_measurement tt"
  unfolding is_measurement_def by auto

lemma user_data_code: "is_measurement tt \<Longrightarrow> tt \<noteq> 0xfb"
  unfolding is_measurement_def by arith

lemma report_record_measurement:
  assumes m: "is_measurement tt"
  shows "report_record rid d tt tid e =
     (Inr 1, write_cells 1 (int tid) 0
               ([PInt (int tid), PInt (int rid), PInt (int tt)] @ map snd d) e)"
proof -
  have nm: "(tt \<in> {0x01, 0x02, 0x11, 0x12, 0xfe, 0xe0, 0xe1}) = False"
    using record_sheet_codes [of tt] m by blast
  have m': "is_measurement tt = True" using m by simp
  show ?thesis
    unfolding report_record_def Let_def measurement_cond nm m' by (simp only: if_True if_False)
qed

lemma report_record_other:
  assumes m: "\<not> is_measurement tt"
  shows "report_record rid d tt tid e =
     (if tt \<in> {0x01, 0x02, 0x11, 0x12, 0xfe, 0xe0, 0xe1} then
           (case report_record_sheet rid (map snd d) tt e of
              Inl err \<Rightarrow> (Inl err, e)
            | Inr e1 \<Rightarrow> (Inr 0, write_cells 0 (int rid) 0 [PInt (int rid)] e1))
      else if tt = 0xfb then
           (case report_user_data rid (zip [0..<length (map snd d)] (map snd d)) e of
              (Some err, e1) \<Rightarrow> (Inl err, e1)
            | (None, e1) \<Rightarrow> (Inr 0, e1))
      else (Inr 0, e))"
proof -
  have m': "is_measurement tt = False" using m by simp
  show ?thesis
    unfolding report_record_def Let_def measurement_cond m' by (simp only: if_False)
qed

lemma report_record_other_cases:
  assumes m: "\<not> is_measurement tt" and r: "report_record rid d tt tid e = (r, e')"
  shows "(\<exists>err. r = Inl err \<and> e' = e)
       \<or> (\<exists>e1. report_record_sheet rid (map snd d) tt e = Inr e1 \<and> r = Inr 0
             \<and> e' = write_cells 0 (int rid) 0 [PInt (int rid)] e1)
       \<or> (\<exists>x. report_user_data rid (zip [0..<length (map snd d)] (map snd d)) e = (x, e')
             \<and> r = (case x of Some err \<Rightarrow> Inl err | None \<Rightarrow> Inr 0))
       \<or> (r = Inr 0 \<and> e' = e)"
proof (cases "tt \<in> {0x01, 0x02, 0x11, 0x12, 0xfe, 0xe0, 0xe1}")
  case True
  then have t: "(tt \<in> {0x01, 0x02, 0x11, 0x12, 0xfe, 0xe0, 0xe1}) = True" by simp
  from r have "(case report_record_sheet rid (map snd d) tt e of
              Inl err \<Rightarrow> (Inl err, e)
            | Inr e1 \<Rightarrow> (Inr 0, write_cells 0 (int rid) 0 [PInt (int rid)] e1)) = (r, e')"
    unfolding report_record_other [OF m] t by (simp only: if_True)
  then show ?thesis
    by (cases "report_record_sheet rid (map snd d) tt e") auto
next
  case False
  then have t: "(tt \<in> {0x01, 0x02, 0x11, 0x12, 0xfe, 0xe0, 0xe1}) = False" by simp
  from r have r': "(if tt = 0xfb then
           (case report_user_data rid (zip [0..<length (map snd d)] (map snd d)) e of
              (Some err, e1) \<Rightarrow> (Inl err, e1)
            | (None, e1) \<Rightarrow> (Inr 0, e1))
      else (Inr 0, e)) = (r, e')"
    unfolding report_record_other [OF m] t by (simp only: if_False)
  show ?thesis
  proof (cases "tt = 0xfb")
    case True
    with r' show ?thesis
      by (cases "report_user_data rid (zip [0..<length (map snd d)] (map snd d)) e")
         (auto split: option.splits)
  next
    case False
    with r' show ?thesis by auto
  qed
qed

lemma report_record_keeps:
  assumes "report_record rid d tt tid e = (r, e')"
  shows "test_id e' = test_id e \<and> reported e' = reported e"
proof (cases "is_measurement tt")
  case True
  with assms show ?thesis by (auto simp: report_record_measurement)
next
  case False
  from report_record_other_cases [OF False assms] show ?thesis
    by (auto dest: report_record_sheet_keeps report_user_data_keeps)
qed

lemma report_record_written:
  assumes "report_record rid d tt tid e = (Inr w, e')"
  shows "w = (if is_measurement tt then 1 else 0)"
proof (cases "is_measurement tt")
  case True
  with assms show ?thesis by (auto simp: report_record_measurement)
next
  case False
  from report_record_other_cases [OF False assms] False show ?thesis
    by (auto split: option.splits)
qed

lemma report_record_raises:
  "report_record rid d tt tid e = (Inl err, e') \<Longrightarrow> \<not> is_measurement tt"
  by (auto simp: report_record_measurement)

section \<open>One pass of the walker\<close>

lemma next_test_Inr:
  assumes "next_test l = Inr (l1, tt, cls)"
  shows "\<exists>b rest label. payload l = b # rest \<and> tt = unat b \<and> payload l1 = rest
           \<and> test_type l1 = Some tt
           \<and> version l1 = (if version l = 1 \<and> (tt = 0x11 \<or> tt = 0x12) then version l + 1
                            else version l)
           \<and> tests l1 = (if version l = 1 \<and> (tt = 0x11 \<or> tt = 0x12)
                          then dict_update (tests l) TESTS_VERSION_2 else tests l)
           \<and> map_of (tests l1) tt = Some (label, cls)"
proof (cases "payload l")
  case Nil
  with assms show ?thesis by (simp add: next_test_def)
next
  case (Cons b rest)
  with assms show ?thesis
    by (simp add: next_test_def Let_def split: option.splits if_splits) auto
qed

lemma loop_body_Inr:
  assumes "loop_body rid l e = (Inr l', e')"
  shows "\<exists>l1 tt cls d. next_test l = Inr (l1, tt, cls)
           \<and> l' = l1\<lparr>payload := drop (len cls) (payload l1)\<rparr>
           \<and> reported e' = reported e @ [(rid, tt, test_id e, d)]
           \<and> test_id e' = test_id e + (if is_measurement tt then 1 else 0)"
proof (cases "next_test l")
  case (Inl err)
  with assms show ?thesis by (simp add: loop_body_def)
next
  case (Inr x)
  obtain l1 tt cls where x: "x = (l1, tt, cls)" by (cases x)
  show ?thesis
  proof (cases "unpack cls (take (len cls) (payload l1))")
    case (Inl err)
    with assms Inr x show ?thesis by (simp add: loop_body_def)
  next
    case (Inr d)
    let ?e1 = "e\<lparr>reported := reported e @ [(rid, tt, test_id e, d)]\<rparr>"
    obtain r e2 where rr: "report_record rid d tt (test_id ?e1) ?e1 = (r, e2)"
      by (cases "report_record rid d tt (test_id ?e1) ?e1")
    from report_record_keeps [OF rr]
    have k: "test_id e2 = test_id e" "reported e2 = reported e @ [(rid, tt, test_id e, d)]"
      by simp_all
    show ?thesis
    proof (cases r)
      case (Inl err)
      with assms \<open>next_test l = Inr x\<close> x Inr rr show ?thesis
        by (simp add: loop_body_def Let_def)
    next
      case (Inr w)
      with rr have "w = (if is_measurement tt then 1 else 0)"
        by (auto dest: report_record_written)
      with assms \<open>next_test l = Inr x\<close> x \<open>unpack cls (take (len cls) (payload l1)) = Inr d\<close>
        rr Inr k
      show ?thesis
        by (auto simp: loop_body_def Let_def)
    qed
  qed
qed

lemma loop_body_Inl:
  assumes "loop_body rid l e = (Inl err, e')"
  shows "test_id e' = test_id e
       \<and> (reported e' = reported e
          \<or> (\<exists>tt d. \<not> is_measurement tt \<and> reported e' = reported e @ [(rid, tt, test_id e, d)]))"
proof (cases "next_test l")
  case (Inl err)
  with assms show ?thesis by (simp add: loop_body_def)
next
  case (Inr x)
  obtain l1 tt cls where x: "x = (l1, tt, cls)" by (cases x)
  show ?thesis
  proof (cases "unpack cls (take (len cls) (payload l1))")
    case (Inl err)
    with assms Inr x show ?thesis by (simp add: loop_body_def)
  next
    case (Inr d)
    let ?e1 = "e\<lparr>reported := reported e @ [(rid, tt, test_id e, d)]\<rparr>"
    obtain r e2 where rr: "report_record rid d tt (test_id ?e1) ?e1 = (r, e2)"
      by (cases "report_record rid d tt (test_id ?e1) ?e1")
    from report_record_keeps [OF rr]
    have k: "test_id e2 = test_id e" "reported e2 = reported e @ [(rid, tt, test_id e, d)]"
      by simp_all
    show ?thesis
    proof (cases r)
      case (Inl err')
      with rr have "\<not> is_measurement tt" by (auto dest: report_record_raises)
      with assms \<open>next_test l = Inr x\<close> x Inr rr Inl k show ?thesis
        by (auto simp: loop_body_def Let_def)
    next
      case (Inr w)
      with assms \<open>next_test l = Inr x\<close> x \<open>unpack cls (take (len cls) (payload l1)) = Inr d\<close> rr
      show ?thesis
        by (simp add: loop_body_def Let_def)
    qed
  qed
qed

section \<open>The registry during the walk of a record\<close>

lemma new_rows_append: "reported e' = reported e @ new \<Longrightarrow> new_rows e e' = new"
  by (simp add: new_rows_def)

lemma upgraded_Cons:
  "upgraded (r # rows) = (row_type r = 0x11 \<or> row_type r = 0x12 \<or> upgraded rows)"
  by (auto simp: upgraded_def)

lemma loop_after_Suc:
  assumes "loop_after (Suc n) rid l e = Some (l', e')"
  shows "\<exists>l1 e1. payload l \<noteq> [] \<and> test_type l \<noteq> Some 0xff
           \<and> loop_body rid l e = (Inr l1, e1) \<and> loop_after n rid l1 e1 = Some (l', e')"
  using assms
  by (cases "loop_body rid l e")
     (auto split: if_splits sum.splits)

lemma loop_after_reported:
  "loop_after n rid l e = Some (l', e') \<Longrightarrow> \<exists>new. reported e' = reported e @ new"
proof (induction n arbitrary: l e)
  case 0
  then show ?case by simp
next
  case (Suc n)
  from loop_after_Suc [OF Suc.prems] obtain l1 e1 where
    b: "loop_body rid l e = (Inr l1, e1)" and a: "loop_after n rid l1 e1 = Some (l', e')"
    by blast
  from loop_body_Inr [OF b] obtain row where "reported e1 = reported e @ [row]" by blast
  moreover from Suc.IH [OF a] obtain new where "reported e' = reported e1 @ new" by blast
  ultimately show ?case by simp
qed

lemma merged_stays:
  assumes "loop_after n rid l e = Some (l', e')" and "version l \<noteq> 1"
  shows "version l' = version l \<and> tests l' = tests l"
  using assms
proof (induction n arbitrary: l e)
  case 0
  then show ?case by simp
next
  case (Suc n)
  from loop_after_Suc [OF Suc.prems(1)] obtain l1 e1 where
    b: "loop_body rid l e = (Inr l1, e1)" and a: "loop_after n rid l1 e1 = Some (l', e')"
    by blast
  from loop_body_Inr [OF b] obtain l2 tt cls where
    nt: "next_test l = Inr (l2, tt, cls)" and l1: "l1 = l2\<lparr>payload := drop (len cls) (payload l2)\<rparr>"
    by blast
  from next_test_Inr [OF nt] Suc.prems(2) have "version l2 = version l" "tests l2 = tests l"
    by auto
  with l1 have s: "version l1 = version l" "tests l1 = tests l" by simp_all
  with Suc.IH [OF a] Suc.prems(2) show ?case by simp
qed

lemma upgrade_inv:
  assumes "loop_after n rid l e = Some (l', e')"
    and "version l = 1" and "tests l = TESTS_VERSION_1"
  shows "if upgraded (new_rows e e')
         then version l' = 2 \<and> tests l' = dict_update TESTS_VERSION_1 TESTS_VERSION_2
         else version l' = 1 \<and> tests l' = TESTS_VERSION_1"
  using assms
proof (induction n arbitrary: l e)
  case 0
  then show ?case by (simp add: new_rows_def upgraded_def)
next
  case (Suc n)
  from loop_after_Suc [OF Suc.prems(1)] obtain l1 e1 where
    b: "loop_body rid l e = (Inr l1, e1)" and a: "loop_after n rid l1 e1 = Some (l', e')"
    by blast
  from loop_body_Inr [OF b] obtain l2 tt cls d where
    nt: "next_test l = Inr (l2, tt, cls)" and l1: "l1 = l2\<lparr>payload := drop (len cls) (payload l2)\<rparr>"
    and r1: "reported e1 = reported e @ [(rid, tt, test_id e, d)]"
    by blast
  from loop_after_reported [OF a] obtain new where r2: "reported e' = reported e1 @ new" by blast
  have n1: "new_rows e1 e' = new" using r2 by (rule new_rows_append)
  have n2: "new_rows e e' = (rid, tt, test_id e, d) # new"
    using r1 r2 by (simp add: new_rows_def)
  from next_test_Inr [OF nt] Suc.prems(2,3)
  have v2: "version l2 = (if tt = 0x11 \<or> tt = 0x12 then 2 else 1)"
    and t2: "tests l2 = (if tt = 0x11 \<or> tt = 0x12
                          then dict_update TESTS_VERSION_1 TESTS_VERSION_2 else TESTS_VERSION_1)"
    by auto
  show ?case
  proof (cases "tt = 0x11 \<or> tt = 0x12")
    case True
    with v2 t2 l1 have "version l1 = 2" "tests l1 = dict_update TESTS_VERSION_1 TESTS_VERSION_2"
      by simp_all
    with merged_stays [OF a] have "version l' = 2 \<and> tests l' = dict_update TESTS_VERSION_1 TESTS_VERSION_2"
      by simp
    with True show ?thesis by (auto simp: n2 upgraded_Cons row_type_def)
  next
    case False
    with v2 t2 l1 have "version l1 = 1" "tests l1 = TESTS_VERSION_1" by simp_all
    from Suc.IH [OF a this] False show ?thesis
      by (simp add: n1 n2 upgraded_Cons row_type_def)
  qed
qed

lemma loop_after_parse:
  "loop_after n rid l e = Some (l', e') \<Longrightarrow>
   parse_record_loop rid l e = parse_record_loop rid l' e'"
proof (induction n arbitrary: l e)
  case 0
  then show ?case by simp
next
  case (Suc n)
  from loop_after_Suc [OF Suc.prems] obtain l1 e1 where
    c: "payload l \<noteq> []" "test_type l \<noteq> Some 0xff" and
    b: "loop_body rid l e = (Inr l1, e1)" and a: "loop_after n rid l1 e1 = Some (l', e')"
    by blast
  have "parse_record_loop rid l e = parse_record_loop rid l1 e1"
    using c b by (subst parse_record_loop.simps) simp
  with Suc.IH [OF a] show ?case by simp
qed

lemma map_of_dict_update:
  "distinct (map fst d2) \<Longrightarrow> map_of (dict_update d1 d2) = map_of d1 ++ map_of d2"
proof (induction d2 arbitrary: d1)
  case Nil
  then show ?case by (simp add: dict_update_def)
next
  case (Cons x d2)
  obtain k v where x: "x = (k, v)" by (cases x)
  from Cons.prems x have k: "k \<notin> fst ` set d2" and d: "distinct (map fst d2)" by auto
  from k have n: "map_of d2 k = None" by (simp add: map_of_eq_None_iff)
  have "map_of (dict_update d1 (x # d2)) = map_of (dict_update (od_set k v d1) d2)"
    by (simp add: dict_update_def x)
  also have "\<dots> = map_of (od_set k v d1) ++ map_of d2"
    by (rule Cons.IH [OF d])
  also have "\<dots> = (map_of d1)(k \<mapsto> v) ++ map_of d2"
    by (simp only: map_of_od_set)
  also have "\<dots> = map_of d1 ++ map_of (x # d2)"
    using n by (auto simp: x fun_eq_iff map_add_def split: option.splits)
  finally show ?case .
qed

lemma merged_registry:
  "map_of (dict_update TESTS_VERSION_1 TESTS_VERSION_2)
     = map_of TESTS_VERSION_1 ++ map_of TESTS_VERSION_2"
  by (rule map_of_dict_update) (simp add: TESTS_VERSION_2_def)

text \<open>C1, as the code has it: every record is walked from the version-1 registry. At every
  point of the walk of one record, the active registry is the merged registry (version-2
  entries overriding version-1 entries) and the version is 2 if a 0x11 or 0x12 sub-record has
  been reported earlier in this record, and otherwise the registry is the version-1 table and
  the version is 1. Once upgraded, the next type code is looked up in the merged registry, and
  the registry stays merged for the rest of the record. A lookup in the merged registry finds
  the version-2 entry of a code that has one, and the version-1 entry otherwise.\<close>

theorem upgrade_within_record:
  assumes "loop_after n rid (initial_locals pl) e = Some (l, e')"
  shows "parse_record pl rid e = parse_record_loop rid l e'
       \<and> (if upgraded (new_rows e e')
           then version l = 2 \<and> tests l = dict_update TESTS_VERSION_1 TESTS_VERSION_2
           else version l = 1 \<and> tests l = TESTS_VERSION_1)
       \<and> (upgraded (new_rows e e') \<longrightarrow>
            next_test l =
              (case payload l of
                 [] \<Rightarrow> Inl IndexError
               | b # rest \<Rightarrow>
                   (case map_of (dict_update TESTS_VERSION_1 TESTS_VERSION_2) (unat b) of
                      None \<Rightarrow> Inl KeyError
                    | Some (label, cls) \<Rightarrow>
                        Inr (l\<lparr>test_type := Some (unat b), payload := rest\<rparr>, unat b, cls))))
       \<and> (\<forall>m l2 e2. upgraded (new_rows e e') \<longrightarrow> loop_after m rid l e' = Some (l2, e2) \<longrightarrow>
            version l2 = 2 \<and> tests l2 = dict_update TESTS_VERSION_1 TESTS_VERSION_2)
       \<and> map_of (dict_update TESTS_VERSION_1 TESTS_VERSION_2)
           = map_of TESTS_VERSION_1 ++ map_of TESTS_VERSION_2"
proof -
  have p: "parse_record pl rid e = parse_record_loop rid l e'"
    unfolding parse_record_def using assms by (rule loop_after_parse)
  have i: "if upgraded (new_rows e e')
           then version l = 2 \<and> tests l = dict_update TESTS_VERSION_1 TESTS_VERSION_2
           else version l = 1 \<and> tests l = TESTS_VERSION_1"
    using assms by (rule upgrade_inv) (simp_all add: initial_locals_def)
  have n: "next_test l =
              (case payload l of
                 [] \<Rightarrow> Inl IndexError
               | b # rest \<Rightarrow>
                   (case map_of (dict_update TESTS_VERSION_1 TESTS_VERSION_2) (unat b) of
                      None \<Rightarrow> Inl KeyError
                    | Some (label, cls) \<Rightarrow>
                        Inr (l\<lparr>test_type := Some (unat b), payload := rest\<rparr>, unat b, cls)))"
    if "upgraded (new_rows e e')"
    using i that by (simp add: next_test_def Let_def split: list.splits option.splits)
  have s: "version l2 = 2 \<and> tests l2 = dict_update TESTS_VERSION_1 TESTS_VERSION_2"
    if "upgraded (new_rows e e')" "loop_after m rid l e' = Some (l2, e2)" for m l2 e2
    using merged_stays [OF that(2)] i that(1) by simp
  from p i n s merged_registry show ?thesis by blast
qed

theorem upgrade_within_record_witness:
  "upgraded (new_rows initial_env
       (snd (the (loop_after 1 1
          (initial_locals ([0x11] @ sample_visual @ [0xF2, 0x19, 0x01, 0x40, 0x64])) initial_env))))
   \<and> version (fst (the (loop_after 1 1
          (initial_locals ([0x11] @ sample_visual @ [0xF2, 0x19, 0x01, 0x40, 0x64])) initial_env))) = 2
   \<and> map row_type (reported (snd (parse_record
          ([0x11] @ sample_visual @ [0xF2, 0x19, 0x01, 0x40, 0x64]) 1 initial_env))) = [0x11, 0xF2]
   \<and> last (reported (snd (parse_record
          ([0x11] @ sample_visual @ [0xF2, 0x19, 0x01, 0x40, 0x64]) 1 initial_env)))
       = (1, 0xF2, 1, [(''current'', PInt 25), (''pass'', PBool True), (''resistance'', PFloat 10)])"
proof -
  let ?pl = "[0x11] @ sample_visual @ [0xF2, 0x19, 0x01, 0x40, 0x64]"
  let ?r = "the (loop_after 1 1 (initial_locals ?pl) initial_env)"
  have h: "loop_after 1 1 (initial_locals ?pl) initial_env = Some (fst ?r, snd ?r)"
    by code_simp
  have u: "upgraded (new_rows initial_env (snd ?r))"
    by code_simp
  have m: "map row_type (reported (snd (parse_record ?pl 1 initial_env))) = [0x11, 0xF2]"
    by code_simp
  have k: "last (reported (snd (parse_record ?pl 1 initial_env)))
       = (1, 0xF2, 1, [(''current'', PInt 25), (''pass'', PBool True), (''resistance'', PFloat 10)])"
    by code_simp
  from upgrade_within_record [OF h] u m k show ?thesis by simp
qed

text \<open>C1 as stated fails: after a first record that holds a 0x11 sub-record, the 0xF2
  sub-record of the second record is decoded with the version-1 schema (a single resistance
  field).\<close>

theorem upgrade_stream_wide_counterexample:
  "fst (parse_sss ([0, 0x57, 0, 0, 0x01, 0x7C] @ [0x11] @ sample_visual
                   @ [0, 3, 0, 0, 0x01, 0x96] @ [0xF2, 0x40, 0x64]) initial_env) = None
   \<and> map row_type (reported (snd (snd (parse_sss
         ([0, 0x57, 0, 0, 0x01, 0x7C] @ [0x11] @ sample_visual
          @ [0, 3, 0, 0, 0x01, 0x96] @ [0xF2, 0x40, 0x64]) initial_env)))) = [0x11, 0xF2]
   \<and> last (reported (snd (snd (parse_sss
         ([0, 0x57, 0, 0, 0x01, 0x7C] @ [0x11] @ sample_visual
          @ [0, 3, 0, 0, 0x01, 0x96] @ [0xF2, 0x40, 0x64]) initial_env))))
       = (2, 0xF2, 1, [(''resistance'', PFloat 10)])"
  by code_simp

section \<open>Unknown type codes\<close>

text \<open>C6, as the code has it: when the walk of a yielded payload reaches, before any
  end-of-record code, a sub-record whose type code is not in the active registry (the
  registry after the check for a first 0x11 or 0x12), the lookup raises KeyError; nothing
  catches it, so that pass of the loop, the walk of the record and the run over the whole
  stream end with that error, whatever follows the record in the stream.\<close>

theorem unknown_type_aborts_run:
  assumes "records_next s = Yield pl rest"
    and "loop_after n rid (initial_locals pl) e = Some (l, e')"
    and "test_type l \<noteq> Some 0xff"
    and "payload l = b # bs"
    and "map_of (if version l = 1 \<and> (unat b = 0x11 \<or> unat b = 0x12)
                 then dict_update (tests l) TESTS_VERSION_2 else tests l) (unat b) = None"
  shows "next_test l = Inl KeyError
       \<and> loop_body rid l e' = (Inl KeyError, e')
       \<and> parse_record pl rid e = (Some KeyError, e')
       \<and> parse_sss_loop s rid e = (Some KeyError, rid, e')"
proof -
  have k: "next_test l = Inl KeyError"
    using assms(4,5) by (simp add: next_test_def Let_def)
  have b: "loop_body rid l e' = (Inl KeyError, e')"
    using k by (simp add: loop_body_def)
  have ne: "payload l \<noteq> []"
    using assms(4) by simp
  have "parse_record_loop rid l e' = (Some KeyError, e')"
    using ne assms(3) b by (subst parse_record_loop.simps) simp
  with loop_after_parse [OF assms(2)] have p: "parse_record pl rid e = (Some KeyError, e')"
    by (simp add: parse_record_def)
  have "parse_sss_loop s rid e = (Some KeyError, rid, e')"
    using assms(1) p by (subst parse_sss_loop.simps) simp
  with k b p show ?thesis by simp
qed

theorem unknown_type_aborts_run_witness:
  "parse_sss_loop ([0, 2, 0, 0, 0, 0xF3] @ [0xF0, 0x03] @ [0, 1, 0, 0, 0, 0xF1] @ [0xF1]) 1
     initial_env
   = (Some KeyError, 1,
      snd (the (loop_after 1 1 (initial_locals [0xF0, 0x03]) initial_env)))
   \<and> map_of TESTS_VERSION_1 (unat (0x03 :: byte)) = None"
proof -
  let ?s = "[0, 2, 0, 0, 0, 0xF3] @ [0xF0, 0x03] @ [0, 1, 0, 0, 0, 0xF1] @ [0xF1] :: byte list"
  let ?r = "the (loop_after 1 1 (initial_locals [0xF0, 0x03]) initial_env)"
  have a: "records_next ?s = Yield [0xF0, 0x03] ([0, 1, 0, 0, 0, 0xF1] @ [0xF1])"
    by code_simp
  have h: "loop_after 1 1 (initial_locals [0xF0, 0x03]) initial_env = Some (fst ?r, snd ?r)"
    by code_simp
  have c: "test_type (fst ?r) \<noteq> Some 0xff" "payload (fst ?r) = [0x03]"
    by code_simp+
  have d: "map_of (if version (fst ?r) = 1 \<and> (unat (0x03 :: byte) = 0x11 \<or> unat (0x03 :: byte) = 0x12)
                 then dict_update (tests (fst ?r)) TESTS_VERSION_2 else tests (fst ?r))
             (unat (0x03 :: byte)) = None"
    by code_simp
  have t: "map_of TESTS_VERSION_1 (unat (0x03 :: byte)) = None"
    by code_simp
  from unknown_type_aborts_run [OF a h c d] t show ?thesis by simp
qed

text \<open>C6 as stated fails: the stream holds two valid records, the first with an unknown type
  code 0x03 after an overall-pass sub-record; the run ends with KeyError and nothing of the
  second record is reported.\<close>

theorem unknown_type_counterexample:
  "records_list ([0, 2, 0, 0, 0, 0xF3] @ [0xF0, 0x03] @ [0, 1, 0, 0, 0, 0xF1] @ [0xF1])
     = [[0xF0, 0x03], [0xF1]]
   \<and> fst (parse_sss ([0, 2, 0, 0, 0, 0xF3] @ [0xF0, 0x03] @ [0, 1, 0, 0, 0, 0xF1] @ [0xF1])
            initial_env) = Some KeyError
   \<and> reported (snd (snd (parse_sss
         ([0, 2, 0, 0, 0, 0xF3] @ [0xF0, 0x03] @ [0, 1, 0, 0, 0, 0xF1] @ [0xF1]) initial_env)))
       = [(1, 0xF0, 1, [])]"
  by code_simp

section \<open>The counters along a run\<close>

lemma counted_ex:
  "counted lo hi e e' =
     (\<exists>new. reported e' = reported e @ new \<and> numbered (test_id e) new
        \<and> test_id e' = test_id e + measured new
        \<and> (\<forall>r\<in>set new. lo \<le> fst r \<and> fst r \<le> hi) \<and> sorted (map fst new))"
proof
  assume "counted lo hi e e'"
  then show "\<exists>new. reported e' = reported e @ new \<and> numbered (test_id e) new
        \<and> test_id e' = test_id e + measured new
        \<and> (\<forall>r\<in>set new. lo \<le> fst r \<and> fst r \<le> hi) \<and> sorted (map fst new)"
    unfolding counted_def Let_def by (intro exI [of _ "new_rows e e'"])
next
  assume "\<exists>new. reported e' = reported e @ new \<and> numbered (test_id e) new
        \<and> test_id e' = test_id e + measured new
        \<and> (\<forall>r\<in>set new. lo \<le> fst r \<and> fst r \<le> hi) \<and> sorted (map fst new)"
  then obtain new where n: "reported e' = reported e @ new" "numbered (test_id e) new"
    "test_id e' = test_id e + measured new" "\<forall>r\<in>set new. lo \<le> fst r \<and> fst r \<le> hi"
    "sorted (map fst new)"
    by blast
  from n(1) have "new_rows e e' = new" by (rule new_rows_append)
  with n show "counted lo hi e e'"
    unfolding counted_def Let_def by simp
qed

lemma measured_append: "measured (xs @ ys) = measured xs + measured ys"
  by (simp add: measured_def)

lemma numbered_append:
  "numbered t (xs @ ys) = (numbered t xs \<and> numbered (t + measured xs) ys)"
proof (induction xs arbitrary: t)
  case Nil
  then show ?case by (simp add: measured_def)
next
  case (Cons x xs)
  obtain rid tt tid d where x: "x = (rid, tt, tid, d)" by (cases x)
  show ?case
    by (simp add: x Cons.IH measured_def row_type_def)
qed

lemma counted_refl: "counted lo hi e e"
  by (simp add: counted_ex measured_def)

lemma counted_trans:
  assumes "counted a b e e1" and "counted c d e1 e2" and "a \<le> c" and "b \<le> c" and "b \<le> d"
  shows "counted a d e e2"
proof -
  from assms(1) obtain n1 where 1: "reported e1 = reported e @ n1" "numbered (test_id e) n1"
    "test_id e1 = test_id e + measured n1" "\<forall>r\<in>set n1. a \<le> fst r \<and> fst r \<le> b"
    "sorted (map fst n1)"
    unfolding counted_ex by blast
  from assms(2) obtain n2 where 2: "reported e2 = reported e1 @ n2" "numbered (test_id e1) n2"
    "test_id e2 = test_id e1 + measured n2" "\<forall>r\<in>set n2. c \<le> fst r \<and> fst r \<le> d"
    "sorted (map fst n2)"
    unfolding counted_ex by blast
  have "reported e2 = reported e @ (n1 @ n2)" using 1(1) 2(1) by simp
  moreover have "numbered (test_id e) (n1 @ n2)" using 1(2,3) 2(2) by (simp add: numbered_append)
  moreover have "test_id e2 = test_id e + measured (n1 @ n2)"
    using 1(3) 2(3) by (simp add: measured_append)
  moreover have "\<forall>r\<in>set (n1 @ n2). a \<le> fst r \<and> fst r \<le> d"
    using 1(4) 2(4) assms(3,5) by fastforce
  moreover have "sorted (map fst (n1 @ n2))"
    using 1(4,5) 2(4,5) assms(4) by (fastforce simp: sorted_append)
  ultimately show ?thesis unfolding counted_ex by blast
qed

lemma loop_body_counted:
  assumes "loop_body rid l e = (r, e')"
  shows "counted rid rid e e'"
proof (cases r)
  case (Inl err)
  with assms have "loop_body rid l e = (Inl err, e')" by simp
  from loop_body_Inl [OF this] show ?thesis
    unfolding counted_ex
  proof (elim conjE disjE exE)
    assume "test_id e' = test_id e" "reported e' = reported e"
    then show "\<exists>new. reported e' = reported e @ new \<and> numbered (test_id e) new
        \<and> test_id e' = test_id e + measured new
        \<and> (\<forall>r\<in>set new. rid \<le> fst r \<and> fst r \<le> rid) \<and> sorted (map fst new)"
      by (intro exI [of _ "[]"]) (simp add: measured_def)
  next
    fix tt d
    assume "test_id e' = test_id e" "\<not> is_measurement tt"
      "reported e' = reported e @ [(rid, tt, test_id e, d)]"
    then show "\<exists>new. reported e' = reported e @ new \<and> numbered (test_id e) new
        \<and> test_id e' = test_id e + measured new
        \<and> (\<forall>r\<in>set new. rid \<le> fst r \<and> fst r \<le> rid) \<and> sorted (map fst new)"
      by (intro exI [of _ "[(rid, tt, test_id e, d)]"]) (simp add: measured_def row_type_def)
  qed
next
  case (Inr l')
  with assms have "loop_body rid l e = (Inr l', e')" by simp
  from loop_body_Inr [OF this] obtain tt d where
    "reported e' = reported e @ [(rid, tt, test_id e, d)]"
    "test_id e' = test_id e + (if is_measurement tt then 1 else 0)"
    by blast
  then show ?thesis
    unfolding counted_ex
    by (intro exI [of _ "[(rid, tt, test_id e, d)]"]) (simp add: measured_def row_type_def)
qed

lemma parse_record_loop_counted:
  "parse_record_loop rid l e = (r, e') \<Longrightarrow> counted rid rid e e'"
proof (induction rid l e rule: parse_record_loop.induct)
  case (1 rid l e)
  show ?case
  proof (cases "payload l \<noteq> [] \<and> test_type l \<noteq> Some 0xff")
    case False
    with "1.prems" have "e' = e" by (subst (asm) parse_record_loop.simps) auto
    then show ?thesis by (simp add: counted_refl)
  next
    case True
    obtain x e1 where b: "loop_body rid l e = (x, e1)" by (cases "loop_body rid l e")
    note c1 = loop_body_counted [OF b]
    show ?thesis
    proof (cases x)
      case (Inl err)
      with "1.prems" True b have "e' = e1" by (subst (asm) parse_record_loop.simps) auto
      with c1 show ?thesis by simp
    next
      case (Inr l1)
      with "1.prems" True b have "parse_record_loop rid l1 e1 = (r, e')"
        by (subst (asm) parse_record_loop.simps) auto
      with "1.IH" [OF True b [symmetric, unfolded Inr]] have "counted rid rid e1 e'" by simp
      with c1 show ?thesis by (rule counted_trans) simp_all
    qed
  qed
qed

lemma records_list_Yield:
  "records_next s = Yield pl rest \<Longrightarrow> records_list s = pl # records_list rest"
  by (subst records_list.simps) simp

lemma records_list_Stop: "records_next s = Stop \<Longrightarrow> records_list s = []"
  by (subst records_list.simps) simp

lemma records_list_Fail: "records_next s = Fail err \<Longrightarrow> records_list s = []"
  by (subst records_list.simps) simp

lemma parse_sss_loop_counted:
  "parse_sss_loop s rid e = (err, rid', e') \<Longrightarrow>
   counted rid rid' e e' \<and> rid \<le> rid' \<and> rid' \<le> rid + length (records_list s)
   \<and> (err = None \<longrightarrow> rid' = rid + length (records_list s))"
proof (induction s rid e rule: parse_sss_loop.induct)
  case (1 s rid e)
  show ?case
  proof (cases "records_next s")
    case Stop
    with "1.prems" have "err = None" "rid' = rid" "e' = e"
      by (subst (asm) parse_sss_loop.simps, simp)+
    with Stop show ?thesis by (simp add: counted_refl records_list_Stop)
  next
    case (Fail x)
    with "1.prems" have "err = Some x" "rid' = rid" "e' = e"
      by (subst (asm) parse_sss_loop.simps, simp)+
    then show ?thesis by (simp add: counted_refl)
  next
    case (Yield pl rest)
    obtain x e1 where p: "parse_record pl rid e = (x, e1)" by (cases "parse_record pl rid e")
    then have c1: "counted rid rid e e1"
      unfolding parse_record_def by (rule parse_record_loop_counted)
    show ?thesis
    proof (cases x)
      case (Some err')
      with "1.prems" Yield p have "err = Some err'" "rid' = rid" "e' = e1"
        by (subst (asm) parse_sss_loop.simps, simp)+
      with c1 show ?thesis by simp
    next
      case None
      with "1.prems" Yield p have "parse_sss_loop rest (rid + 1) e1 = (err, rid', e')"
        by (subst (asm) parse_sss_loop.simps) simp
      from "1.IH" [OF Yield p [symmetric] None this]
      have c2: "counted (rid + 1) rid' e1 e'" and le: "rid + 1 \<le> rid'"
        and ub: "rid' \<le> rid + 1 + length (records_list rest)"
        and eq: "err = None \<longrightarrow> rid' = rid + 1 + length (records_list rest)"
        by simp_all
      from c1 c2 have "counted rid rid' e e'"
        by (rule counted_trans) (use le in simp_all)
      with le ub eq show ?thesis by (simp add: records_list_Yield [OF Yield])
    qed
  qed
qed

text \<open>C8: along the whole run over a stream, starting at any record id and any environment,
  the rows reported so far stay; the record id ends advanced by at most one per payload the
  frame reader yields, and by exactly one per yielded payload when the run ends without an
  exception, and the record ids of the new rows ascend within its range; every new row
  carries the test id of a counter that steps exactly after each row whose type code is 0x10
  or 0xF0 to 0xFA and after no other row; and the test id counter ends advanced by the number
  of such rows.\<close>

theorem counters:
  assumes "parse_sss_loop s rid e = (err, rid', e')"
  shows "reported e' = reported e @ new_rows e e'
       \<and> numbered (test_id e) (new_rows e e')
       \<and> test_id e' = test_id e + measured (new_rows e e')
       \<and> sorted (map fst (new_rows e e'))
       \<and> (\<forall>r\<in>set (new_rows e e'). rid \<le> fst r \<and> fst r \<le> rid')
       \<and> rid \<le> rid' \<and> rid' \<le> rid + length (records_list s)
       \<and> (err = None \<longrightarrow> rid' = rid + length (records_list s))"
proof -
  from parse_sss_loop_counted [OF assms]
  have c: "counted rid rid' e e'" and r: "rid \<le> rid'" "rid' \<le> rid + length (records_list s)"
    "err = None \<longrightarrow> rid' = rid + length (records_list s)"
    by simp_all
  from c obtain new where n: "reported e' = reported e @ new" "numbered (test_id e) new"
    "test_id e' = test_id e + measured new" "\<forall>r\<in>set new. rid \<le> fst r \<and> fst r \<le> rid'"
    "sorted (map fst new)"
    unfolding counted_ex by blast
  from n(1) have "new_rows e e' = new" by (rule new_rows_append)
  with n r show ?thesis by simp
qed

theorem counters_witness:
  "test_id (snd (snd (parse_sss_loop ([0, 4, 0, 0, 0x02, 0x86] @ [0xF0, 0xF2, 0x40, 0x64]
          @ [0, 6, 0, 0, 0x02, 0xDD] @ [0xE1, 0, 0, 12, 0xF1, 0xFF]) 1 initial_env)))
     = test_id initial_env + measured (new_rows initial_env
         (snd (snd (parse_sss_loop ([0, 4, 0, 0, 0x02, 0x86] @ [0xF0, 0xF2, 0x40, 0x64]
          @ [0, 6, 0, 0, 0x02, 0xDD] @ [0xE1, 0, 0, 12, 0xF1, 0xFF]) 1 initial_env))))
   \<and> fst (snd (parse_sss_loop ([0, 4, 0, 0, 0x02, 0x86] @ [0xF0, 0xF2, 0x40, 0x64]
          @ [0, 6, 0, 0, 0x02, 0xDD] @ [0xE1, 0, 0, 12, 0xF1, 0xFF]) 1 initial_env))
       = 1 + length (records_list ([0, 4, 0, 0, 0x02, 0x86] @ [0xF0, 0xF2, 0x40, 0x64]
          @ [0, 6, 0, 0, 0x02, 0xDD] @ [0xE1, 0, 0, 12, 0xF1, 0xFF]))
   \<and> map (\<lambda>(rid, tt, tid, d). (rid, tt, tid))
        (reported (snd (snd (parse_sss_loop ([0, 4, 0, 0, 0x02, 0x86] @ [0xF0, 0xF2, 0x40, 0x64]
          @ [0, 6, 0, 0, 0x02, 0xDD] @ [0xE1, 0, 0, 12, 0xF1, 0xFF]) 1 initial_env))))
       = [(1, 0xF0, 1), (1, 0xF2, 2), (2, 0xE1, 3), (2, 0xF1, 3), (2, 0xFF, 4)]"
proof -
  let ?s = "[0, 4, 0, 0, 0x02, 0x86] @ [0xF0, 0xF2, 0x40, 0x64]
          @ [0, 6, 0, 0, 0x02, 0xDD] @ [0xE1, 0, 0, 12, 0xF1, 0xFF] :: byte list"
  let ?r = "parse_sss_loop ?s 1 initial_env"
  have h: "?r = (None, fst (snd ?r), snd (snd ?r))"
    by code_simp
  have l: "map (\<lambda>(rid, tt, tid, d). (rid, tt, tid)) (reported (snd (snd ?r)))
       = [(1, 0xF0, 1), (1, 0xF2, 2), (2, 0xE1, 3), (2, 0xF1, 3), (2, 0xFF, 4)]"
    by code_simp
  note c = counters [OF h]
  from c have a: "test_id (snd (snd ?r))
     = test_id initial_env + measured (new_rows initial_env (snd (snd ?r)))"
    by (elim conjE)
  from c have b: "fst (snd ?r) = 1 + length (records_list ?s)"
    by (elim conjE) blast
  from a b l show ?thesis by (intro conjI)
qed

section \<open>State that outlives a run\<close>

text \<open>C2 fails on the code: the test id counter (like the user-data mapping and counts) is an
  attribute of the function, initialised once per process, so decoding the same file twice in
  one run of \<^verbatim>\<open>main\<close> reports test id 1 the first time and test id 2 the second time, while
  the record id starts at 1 both times.\<close>

theorem static_state_leaks:
  "main [[0, 1, 0, 0, 0, 0xF0, 0xF0], [0, 1, 0, 0, 0, 0xF0, 0xF0]] =
     [([(1, 0xF0, 1, [])], [(1, 1, 0, [PInt 1, PInt 1, PInt 0xF0])]),
      ([(1, 0xF0, 2, [])], [(1, 2, 0, [PInt 2, PInt 1, PInt 0xF0])])]"
  by code_simp

end
